theory Spec2Isabelle
  imports Complex_Main "HOL-Library.Word"
begin

section \<open>Data model of \<open>modules/swinir_model.py\<close>\<close>

text \<open>
  Exceptions the Python code can raise are values of \<open>error\<close>; a function that can raise
  returns \<open>error + 'a\<close> with \<open>Inl\<close> for the exception.
\<close>

datatype error =
  IndexError | ValueError | ZeroDivisionError | AssertionError | RuntimeError | OSError

text \<open>
  Tensor samples. A finite sample is an exact rational (the rounding of float32 and
  float16 arithmetic is not modelled); the IEEE special values are kept, since the
  final division \<open>E.div_(W)\<close> can produce them.
\<close>

datatype fl = Fin rat | PInf | NInf | NaN

text \<open>IEEE addition, as \<open>Tensor.add_\<close> applies it to each sample.\<close>

fun fadd :: "fl \<Rightarrow> fl \<Rightarrow> fl" where
  "fadd NaN _ = NaN"
| "fadd _ NaN = NaN"
| "fadd PInf NInf = NaN"
| "fadd NInf PInf = NaN"
| "fadd PInf _ = PInf"
| "fadd _ PInf = PInf"
| "fadd NInf _ = NInf"
| "fadd _ NInf = NInf"
| "fadd (Fin a) (Fin b) = Fin (a + b)"

text \<open>
  IEEE division, as \<open>Tensor.div_\<close> applies it to each sample. A zero divisor is the
  positive zero that \<open>torch.zeros\<close> writes: zero by zero is NaN, a nonzero sample by
  zero is an infinity of the sample's sign. No branch raises.
\<close>

fun fdiv :: "fl \<Rightarrow> fl \<Rightarrow> fl" where
  "fdiv NaN _ = NaN"
| "fdiv _ NaN = NaN"
| "fdiv PInf (Fin b) = (if 0 \<le> b then PInf else NInf)"
| "fdiv NInf (Fin b) = (if 0 \<le> b then NInf else PInf)"
| "fdiv PInf _ = NaN"
| "fdiv NInf _ = NaN"
| "fdiv (Fin a) (Fin b) =
     (if b = 0 then (if a = 0 then NaN else if 0 < a then PInf else NInf)
      else Fin (a / b))"
| "fdiv (Fin a) _ = Fin 0"

text \<open>\<open>clamp_(0, 1)\<close> on one sample; NaN stays NaN.\<close>

fun clamp01 :: "fl \<Rightarrow> fl" where
  "clamp01 NaN = NaN"
| "clamp01 PInf = Fin 1"
| "clamp01 NInf = Fin 0"
| "clamp01 (Fin a) = Fin (min 1 (max 0 a))"

text \<open>
  A rank-3 array: its three extents and its samples by index. The torch tensors of the
  module have rank 4 with a batch axis of extent 1 (\<open>unsqueeze(0)\<close>); that axis is left
  out, so a tensor is channels by rows by columns. Samples at indices outside the
  extents are not part of the array.
\<close>

datatype 'a arr3 = Arr3 (d0: nat) (d1: nat) (d2: nat) (el: "nat \<Rightarrow> nat \<Rightarrow> nat \<Rightarrow> 'a")

type_synonym tensor = "fl arr3"

text \<open>
  A numpy array of rank 0 to 3. \<open>np.array\<close> of a PIL image has rank 2 (a single band)
  or rank 3 (rows by columns by channels); \<open>squeeze\<close> can leave any rank.
\<close>

datatype 'a ndarray =
  Nd0 'a
| Nd1 nat "nat \<Rightarrow> 'a"
| Nd2 nat nat "nat \<Rightarrow> nat \<Rightarrow> 'a"
| Nd3 "'a arr3"

text \<open>The model is an opaque callable: a patch in, a patch or an exception out.\<close>

type_synonym net = "tensor \<Rightarrow> error + tensor"

text \<open>
  The effects the claims speak about, in the order they happen: the allocation of an
  accumulation buffer (\<open>torch.zeros\<close>, \<open>torch.zeros_like\<close>) with its extents, and a call
  of the model with the patch it receives.
\<close>

datatype event = Zeros nat nat nat | Invoke tensor

section \<open>Python and torch primitives\<close>

text \<open>
  A slice bound \<open>i\<close> on an axis of extent \<open>n\<close>: a negative bound counts from the end,
  and the result is clipped to \<open>0..n\<close>.
\<close>

definition norm_index :: "nat \<Rightarrow> int \<Rightarrow> nat" where
  "norm_index n i = (if i < 0 then nat (max 0 (int n + i)) else min n (nat i))"

text \<open>\<open>t[:, lo:hi, :]\<close> and \<open>t[:, :, lo:hi]\<close> (rows are axis 1, columns axis 2).\<close>

definition slice1 :: "int \<Rightarrow> int \<Rightarrow> 'a arr3 \<Rightarrow> 'a arr3" where
  "slice1 lo hi t =
     (let a = norm_index (d1 t) lo; b = norm_index (d1 t) hi
      in Arr3 (d0 t) (b - a) (d2 t) (\<lambda>k i j. el t k (a + i) j))"

definition slice2 :: "int \<Rightarrow> int \<Rightarrow> 'a arr3 \<Rightarrow> 'a arr3" where
  "slice2 lo hi t =
     (let a = norm_index (d2 t) lo; b = norm_index (d2 t) hi
      in Arr3 (d0 t) (d1 t) (b - a) (\<lambda>k i j. el t k i (a + j)))"

text \<open>\<open>torch.flip(t, [axis])\<close>.\<close>

definition flip1 :: "'a arr3 \<Rightarrow> 'a arr3" where
  "flip1 t = Arr3 (d0 t) (d1 t) (d2 t) (\<lambda>k i j. el t k (d1 t - 1 - i) j)"

definition flip2 :: "'a arr3 \<Rightarrow> 'a arr3" where
  "flip2 t = Arr3 (d0 t) (d1 t) (d2 t) (\<lambda>k i j. el t k i (d2 t - 1 - j))"

text \<open>
  \<open>torch.cat([s, t], axis)\<close>, for tensors that agree on the other axes (here \<open>t\<close> is
  always the flip of \<open>s\<close>).
\<close>

definition cat1 :: "'a arr3 \<Rightarrow> 'a arr3 \<Rightarrow> 'a arr3" where
  "cat1 s t =
     Arr3 (d0 s) (d1 s + d1 t) (d2 s) (\<lambda>k i j. if i < d1 s then el s k i j else el t k (i - d1 s) j)"

definition cat2 :: "'a arr3 \<Rightarrow> 'a arr3 \<Rightarrow> 'a arr3" where
  "cat2 s t =
     Arr3 (d0 s) (d1 s) (d2 s + d2 t) (\<lambda>k i j. if j < d2 s then el s k i j else el t k i (j - d2 s))"

section \<open>Preparation: normalisation and padding (\<open>upscale\<close>, lines 91 to 101)\<close>

text \<open>
  \<open>img[:, :, ::-1]\<close>, \<open>np.moveaxis(img, 2, 0) / 255\<close>: the channel order is reversed, the
  channel axis moves to the front and every byte is divided by 255.
\<close>

definition to_tensor :: "8 word arr3 \<Rightarrow> tensor" where
  "to_tensor a =
     Arr3 (d2 a) (d0 a) (d1 a) (\<lambda>k i j. Fin (of_nat (unat (el a i j (d2 a - 1 - k))) / 255))"

text \<open>
  The padding amount of lines 98 and 99, \<open>(dim // window_size + 1) * window_size - dim\<close>
  for an extent \<open>n\<close>.
  Python raises ZeroDivisionError for \<open>window_size = 0\<close>; \<open>//\<close> rounds down, as \<open>div\<close>
  does on \<open>int\<close>.
\<close>

definition pad_amount :: "nat \<Rightarrow> int \<Rightarrow> error + int" where
  "pad_amount n window_size =
     (if window_size = 0 then Inl ZeroDivisionError
      else Inr ((int n div window_size + 1) * window_size - int n))"

text \<open>
  Lines 100 and 101: the tensor is concatenated with its own flip and cut at
  \<open>h_old + h_pad\<close> rows, then the same along the columns.
\<close>

definition pad :: "tensor \<Rightarrow> int \<Rightarrow> int \<Rightarrow> tensor" where
  "pad img h_pad w_pad =
     (let h_old = d1 img; w_old = d2 img;
          img = slice1 0 (int h_old + h_pad) (cat1 img (flip1 img));
          img = slice2 0 (int w_old + w_pad) (cat2 img (flip2 img))
      in img)"

text \<open>Lines 91 to 101 together: the padded tensor that is handed to \<open>inference\<close>.\<close>

definition prepare :: "8 word arr3 \<Rightarrow> int \<Rightarrow> error + tensor" where
  "prepare a window_size =
     (let img = to_tensor a in
      case pad_amount (d1 img) window_size of
        Inl e \<Rightarrow> Inl e
      | Inr h_pad \<Rightarrow>
          (case pad_amount (d2 img) window_size of
             Inl e \<Rightarrow> Inl e
           | Inr w_pad \<Rightarrow> Inr (pad img h_pad w_pad)))"

section \<open>Tile schedule (\<open>inference\<close>, lines 115 to 122)\<close>

text \<open>
  \<open>list(range(start, stop, step))\<close>: a zero step raises ValueError; otherwise the list
  has the length CPython computes and its \<open>k\<close>-th element is \<open>start + k * step\<close>.
\<close>

definition py_range :: "int \<Rightarrow> int \<Rightarrow> int \<Rightarrow> error + int list" where
  "py_range start stop step =
     (if step = 0 then Inl ValueError
      else let n = (if 0 < step \<and> start < stop then (stop - start - 1) div step + 1
                    else if step < 0 \<and> stop < start then (start - stop - 1) div (- step) + 1
                    else 0)
           in Inr (map (\<lambda>k. start + int k * step) [0..<nat n]))"

text \<open>\<open>list(range(0, h - tile, stride)) + [h - tile]\<close>.\<close>

definition idx_list :: "nat \<Rightarrow> int \<Rightarrow> int \<Rightarrow> error + int list" where
  "idx_list h tile stride =
     (case py_range 0 (int h - tile) stride of
        Inl e \<Rightarrow> Inl e
      | Inr xs \<Rightarrow> Inr (xs @ [int h - tile]))"

section \<open>Accumulation (\<open>inference\<close>, lines 123 to 140)\<close>

definition zeros :: "nat \<Rightarrow> nat \<Rightarrow> nat \<Rightarrow> tensor" where
  "zeros c h w = Arr3 c h w (\<lambda>k i j. Fin 0)"

definition ones_like :: "tensor \<Rightarrow> tensor" where
  "ones_like p = Arr3 (d0 p) (d1 p) (d2 p) (\<lambda>k i j. Fin 1)"

text \<open>
  Broadcasting of the in-place \<open>add_\<close>: the operand fits a region of extents
  \<open>c\<close>, \<open>h\<close>, \<open>w\<close> when each of its extents is the region's or 1, and an axis of
  extent 1 is repeated along the region.
\<close>

definition bcast_ok :: "nat \<Rightarrow> nat \<Rightarrow> nat \<Rightarrow> 'a arr3 \<Rightarrow> bool" where
  "bcast_ok c h w p \<longleftrightarrow>
     (d0 p = c \<or> d0 p = 1) \<and> (d1 p = h \<or> d1 p = 1) \<and> (d2 p = w \<or> d2 p = 1)"

definition expand :: "nat \<Rightarrow> nat \<Rightarrow> nat \<Rightarrow> 'a arr3 \<Rightarrow> 'a arr3" where
  "expand c h w p =
     Arr3 c h w (\<lambda>k i j. el p (if d0 p = 1 then 0 else k)
                              (if d1 p = 1 then 0 else i)
                              (if d2 p = 1 then 0 else j))"

text \<open>
  \<open>B[..., lo1:hi1, lo2:hi2].add_(p)\<close>: the slice bounds are normalised against the
  buffer, the operand is broadcast to the region, and a shape that does not fit raises
  RuntimeError. The buffer keeps its extents.
\<close>

definition add_region :: "tensor \<Rightarrow> int \<Rightarrow> int \<Rightarrow> int \<Rightarrow> int \<Rightarrow> tensor \<Rightarrow> error + tensor" where
  "add_region B lo1 hi1 lo2 hi2 p =
     (let a1 = norm_index (d1 B) lo1; b1 = norm_index (d1 B) hi1;
          a2 = norm_index (d2 B) lo2; b2 = norm_index (d2 B) hi2
      in if bcast_ok (d0 B) (b1 - a1) (b2 - a2) p
         then Inr (Arr3 (d0 B) (d1 B) (d2 B)
                (\<lambda>k i j. if a1 \<le> i \<and> i < b1 \<and> a2 \<le> j \<and> j < b2
                          then fadd (el B k i j)
                                 (el (expand (d0 B) (b1 - a1) (b2 - a2) p) k (i - a1) (j - a2))
                          else el B k i j))
         else Inl RuntimeError)"

text \<open>\<open>img[..., h_idx: h_idx + tile, w_idx: w_idx + tile]\<close>, line 129.\<close>

definition in_patch :: "tensor \<Rightarrow> int \<Rightarrow> int \<Rightarrow> int \<Rightarrow> tensor" where
  "in_patch img tile h_idx w_idx =
     slice2 w_idx (w_idx + tile) (slice1 h_idx (h_idx + tile) img)"

text \<open>
  The body of the two loops, lines 129 to 138, for one tile origin: the model is
  called on the patch, its output is added into \<open>E\<close> and a tensor of ones of the same
  shape into \<open>W\<close>. An exception of the model or of an \<open>add_\<close> ends the run.
\<close>

definition tile_step ::
  "tensor \<Rightarrow> net \<Rightarrow> int \<Rightarrow> int \<Rightarrow> int \<times> int \<Rightarrow> tensor \<times> tensor
     \<Rightarrow> event list \<times> (error + tensor \<times> tensor)" where
  "tile_step img model tile sf origin bufs =
     (case origin of (h_idx, w_idx) \<Rightarrow>
      case bufs of (E, W) \<Rightarrow>
      case model (in_patch img tile h_idx w_idx) of
        Inl e \<Rightarrow> ([Invoke (in_patch img tile h_idx w_idx)], Inl e)
      | Inr out_patch \<Rightarrow>
          (case add_region E (h_idx * sf) ((h_idx + tile) * sf)
                             (w_idx * sf) ((w_idx + tile) * sf) out_patch of
             Inl e \<Rightarrow> ([Invoke (in_patch img tile h_idx w_idx)], Inl e)
           | Inr E' \<Rightarrow>
               (case add_region W (h_idx * sf) ((h_idx + tile) * sf)
                                  (w_idx * sf) ((w_idx + tile) * sf) (ones_like out_patch) of
                  Inl e \<Rightarrow> ([Invoke (in_patch img tile h_idx w_idx)], Inl e)
                | Inr W' \<Rightarrow> ([Invoke (in_patch img tile h_idx w_idx)], Inr (E', W')))))"

text \<open>
  The loops of lines 127 and 128 visit the cross product of the two origin lists in
  row-major order; \<open>run_tiles\<close> is that loop over the list of origins, stopping at the
  first exception.
\<close>

fun run_tiles ::
  "tensor \<Rightarrow> net \<Rightarrow> int \<Rightarrow> int \<Rightarrow> (int \<times> int) list \<Rightarrow> tensor \<times> tensor
     \<Rightarrow> event list \<times> (error + tensor \<times> tensor)" where
  "run_tiles img model tile sf [] bufs = ([], Inr bufs)"
| "run_tiles img model tile sf (origin # origins) bufs =
     (case tile_step img model tile sf origin bufs of
        (ev, Inl e) \<Rightarrow> (ev, Inl e)
      | (ev, Inr bufs') \<Rightarrow>
          (case run_tiles img model tile sf origins bufs' of
             (evs, r) \<Rightarrow> (ev @ evs, r)))"

text \<open>
  Lines 115 to 139 of \<open>inference\<close>: everything before the final division, returning the
  two buffers \<open>E\<close> and \<open>W\<close>. \<open>%\<close> raises ZeroDivisionError for a zero window size,
  the \<open>assert\<close> raises AssertionError, \<open>range\<close> raises ValueError for a zero stride,
  and \<open>torch.zeros\<close> raises RuntimeError for a negative extent.
\<close>

definition accumulate ::
  "tensor \<Rightarrow> net \<Rightarrow> int \<Rightarrow> int \<Rightarrow> int \<Rightarrow> int \<Rightarrow> event list \<times> (error + tensor \<times> tensor)" where
  "accumulate img model tile tile_overlap window_size scale =
     (let c = d0 img; h = d1 img; w = d2 img;
          tile = min tile (min (int h) (int w))
      in if window_size = 0 then ([], Inl ZeroDivisionError)
         else if tile mod window_size \<noteq> 0 then ([], Inl AssertionError)
         else
           let sf = scale; stride = tile - tile_overlap in
           case idx_list h tile stride of
             Inl e \<Rightarrow> ([], Inl e)
           | Inr h_idx_list \<Rightarrow>
               (case idx_list w tile stride of
                  Inl e \<Rightarrow> ([], Inl e)
                | Inr w_idx_list \<Rightarrow>
                    if int h * sf < 0 \<or> int w * sf < 0 then ([], Inl RuntimeError)
                    else
                      let E = zeros c (nat (int h * sf)) (nat (int w * sf));
                          W = zeros (d0 E) (d1 E) (d2 E)
                      in case run_tiles img model tile sf
                                (List.product h_idx_list w_idx_list) (E, W) of
                           (tr, r) \<Rightarrow>
                             (Zeros (d0 E) (d1 E) (d2 E) # Zeros (d0 W) (d1 W) (d2 W) # tr, r)))"

text \<open>\<open>E.div_(W)\<close>, line 140: sample by sample, with no check of the divisor.\<close>

definition div_inplace :: "tensor \<Rightarrow> tensor \<Rightarrow> tensor" where
  "div_inplace E W = Arr3 (d0 E) (d1 E) (d2 E) (\<lambda>k i j. fdiv (el E k i j) (el W k i j))"

definition inference ::
  "tensor \<Rightarrow> net \<Rightarrow> int \<Rightarrow> int \<Rightarrow> int \<Rightarrow> int \<Rightarrow> event list \<times> (error + tensor)" where
  "inference img model tile tile_overlap window_size scale =
     (case accumulate img model tile tile_overlap window_size scale of
        (tr, Inl e) \<Rightarrow> (tr, Inl e)
      | (tr, Inr (E, W)) \<Rightarrow> (tr, Inr (div_inplace E W)))"

section \<open>Finalisation (\<open>upscale\<close>, lines 103 to 110)\<close>

text \<open>\<open>squeeze()\<close> drops every axis of extent 1.\<close>

definition squeeze :: "'a arr3 \<Rightarrow> 'a ndarray" where
  "squeeze t =
     (if d0 t = 1 then
        (if d1 t = 1 then
           (if d2 t = 1 then Nd0 (el t 0 0 0) else Nd1 (d2 t) (\<lambda>j. el t 0 0 j))
         else
           (if d2 t = 1 then Nd1 (d1 t) (\<lambda>i. el t 0 i 0)
            else Nd2 (d1 t) (d2 t) (\<lambda>i j. el t 0 i j)))
      else
        (if d1 t = 1 then
           (if d2 t = 1 then Nd1 (d0 t) (\<lambda>k. el t k 0 0)
            else Nd2 (d0 t) (d2 t) (\<lambda>k j. el t k 0 j))
         else
           (if d2 t = 1 then Nd2 (d0 t) (d1 t) (\<lambda>k i. el t k i 0) else Nd3 t)))"

fun map_nd :: "('a \<Rightarrow> 'b) \<Rightarrow> 'a ndarray \<Rightarrow> 'b ndarray" where
  "map_nd f (Nd0 x) = Nd0 (f x)"
| "map_nd f (Nd1 n g) = Nd1 n (\<lambda>i. f (g i))"
| "map_nd f (Nd2 m n g) = Nd2 m n (\<lambda>i j. f (g i j))"
| "map_nd f (Nd3 t) = Nd3 (Arr3 (d0 t) (d1 t) (d2 t) (\<lambda>k i j. f (el t k i j)))"

fun ndim :: "'a ndarray \<Rightarrow> nat" where
  "ndim (Nd0 x) = 0"
| "ndim (Nd1 n g) = 1"
| "ndim (Nd2 m n g) = 2"
| "ndim (Nd3 t) = 3"

fun shape :: "'a ndarray \<Rightarrow> nat list" where
  "shape (Nd0 x) = []"
| "shape (Nd1 n g) = [n]"
| "shape (Nd2 m n g) = [m, n]"
| "shape (Nd3 t) = [d0 t, d1 t, d2 t]"

text \<open>
  Lines 105 to 108: only an array that still has rank 3 is reordered.
  \<open>output[[2, 1, 0], :, :]\<close> raises IndexError when there are fewer than 3 channels;
  the transposition puts the channel axis last.
\<close>

definition reorder :: "'a ndarray \<Rightarrow> error + 'a ndarray" where
  "reorder output =
     (case output of
        Nd3 t \<Rightarrow>
          if d0 t < 3 then Inl IndexError
          else Inr (Nd3 (Arr3 (d1 t) (d2 t) 3 (\<lambda>i j k. el t (2 - k) i j)))
      | _ \<Rightarrow> Inr output)"

text \<open>\<open>round()\<close> of numpy rounds a half to the even neighbour.\<close>

definition round_half_even :: "rat \<Rightarrow> int" where
  "round_half_even q =
     (let f = \<lfloor>q\<rfloor>; r = q - of_int f
      in if r < 1 / 2 then f else if 1 / 2 < r then f + 1 else if even f then f else f + 1)"

text \<open>
  Line 109, \<open>(output * 255.0).round().astype(np.uint8)\<close>, on one sample. The byte that
  the cast gives to a sample that is not finite (after the clamp, only NaN) depends on
  the platform and is the parameter \<open>nan_cast\<close>.
\<close>

definition to_uint8 :: "8 word \<Rightarrow> fl \<Rightarrow> 8 word" where
  "to_uint8 nan_cast x =
     (case x of Fin q \<Rightarrow> word_of_int (round_half_even (q * 255)) | _ \<Rightarrow> nan_cast)"

section \<open>\<open>upscale\<close>\<close>

text \<open>
  The whole of \<open>upscale\<close>. A PIL image is modelled by the array \<open>np.array\<close> gives for
  it, and the result by the array handed to \<open>Image.fromarray\<close>. An array without a
  third axis makes \<open>img[:, :, ::-1]\<close> raise IndexError. The trace lists the buffer
  allocations and model calls made.
\<close>

definition upscale ::
  "8 word \<Rightarrow> 8 word ndarray \<Rightarrow> net \<Rightarrow> int \<Rightarrow> int \<Rightarrow> int \<Rightarrow> int
     \<Rightarrow> event list \<times> (error + 8 word ndarray)" where
  "upscale nan_cast img model tile tile_overlap window_size scale =
     (case img of
        Nd3 a \<Rightarrow>
          (case prepare a window_size of
             Inl e \<Rightarrow> ([], Inl e)
           | Inr padded \<Rightarrow>
               (let h_old = d0 a; w_old = d1 a in
                case inference padded model tile tile_overlap window_size scale of
                  (tr, Inl e) \<Rightarrow> (tr, Inl e)
                | (tr, Inr output) \<Rightarrow>
                    (let output = slice2 0 (int w_old * scale)
                                    (slice1 0 (int h_old * scale) output);
                         output = map_nd clamp01 (squeeze output)
                     in case reorder output of
                          Inl e \<Rightarrow> (tr, Inl e)
                        | Inr output \<Rightarrow> (tr, Inr (map_nd (to_uint8 nan_cast) output)))))
      | _ \<Rightarrow> ([], Inl IndexError))"

section \<open>\<open>UpscalerSwinIR\<close>\<close>

text \<open>
  What the class takes from outside the module: the download helper of basicsr (it
  returns the name of the local file), \<open>os.path.exists\<close>, the construction of the
  network from a checkpoint file (\<open>net(...)\<close>, \<open>torch.load\<close>, \<open>load_state_dict\<close>,
  \<open>half\<close>), the directory of the models, and the options \<open>SWIN_tile\<close> and
  \<open>SWIN_tile_overlap\<close>.
\<close>

record env =
  load_file_from_url :: "string \<Rightarrow> string \<Rightarrow> string \<Rightarrow> error + string option"
  path_exists :: "string \<Rightarrow> bool"
  load_net :: "string \<Rightarrow> int \<Rightarrow> error + net"
  model_path :: string
  SWIN_tile :: int
  SWIN_tile_overlap :: int
  uint8_of_nan :: "8 word"

definition model_name :: string where
  "model_name = ''SwinIR 4x''"

text \<open>\<open>sub in s\<close> on strings.\<close>

fun starts_with :: "string \<Rightarrow> string \<Rightarrow> bool" where
  "starts_with [] s = True"
| "starts_with (x # xs) [] = False"
| "starts_with (x # xs) (y # ys) = (x = y \<and> starts_with xs ys)"

fun contains :: "string \<Rightarrow> string \<Rightarrow> bool" where
  "contains sub [] = (sub = [])"
| "contains sub (y # ys) = (starts_with sub (y # ys) \<or> contains sub ys)"

text \<open>The file name that \<open>load_model\<close> settles on, lines 55 to 59.\<close>

definition resolve_filename :: "env \<Rightarrow> string \<Rightarrow> error + string option" where
  "resolve_filename env path =
     (if contains ''http'' path
      then load_file_from_url env path (model_path env)
             (map (\<lambda>c. if c = CHR '' '' then CHR ''_'' else c) model_name @ ''.pth'')
      else Inr (Some path))"

definition load_model :: "env \<Rightarrow> string \<Rightarrow> int \<Rightarrow> error + net option" where
  "load_model env path scale =
     (case resolve_filename env path of
        Inl e \<Rightarrow> Inl e
      | Inr None \<Rightarrow> Inr None
      | Inr (Some filename) \<Rightarrow>
          if \<not> path_exists env filename then Inr None
          else (case load_net env filename scale of
                  Inl e \<Rightarrow> Inl e
                | Inr model \<Rightarrow> Inr (Some model)))"

text \<open>
  \<open>do_upscale\<close>: without a model the image comes back as it is; otherwise \<open>upscale\<close>
  runs with the tile options and its defaults \<open>window_size = 8\<close> and \<open>scale = 4\<close>.
\<close>

definition do_upscale :: "env \<Rightarrow> 8 word ndarray \<Rightarrow> string \<Rightarrow> event list \<times> (error + 8 word ndarray)" where
  "do_upscale env img model_file =
     (case load_model env model_file 4 of
        Inl e \<Rightarrow> ([], Inl e)
      | Inr None \<Rightarrow> ([], Inr img)
      | Inr (Some model) \<Rightarrow>
          upscale (uint8_of_nan env) img model (SWIN_tile env) (SWIN_tile_overlap env) 8 4)"

section \<open>Concrete inputs for the examples\<close>

text \<open>An image of one colour, as the array \<open>np.array\<close> gives: rows, columns, channels.\<close>

definition solid :: "nat \<Rightarrow> nat \<Rightarrow> nat \<Rightarrow> 8 word \<Rightarrow> 8 word arr3" where
  "solid h w c v = Arr3 h w c (\<lambda>i j k. v)"

text \<open>A single-band image of one grey level: rows, columns, no channel axis.\<close>

definition grey :: "nat \<Rightarrow> nat \<Rightarrow> 8 word \<Rightarrow> 8 word ndarray" where
  "grey h w v = Nd2 h w (\<lambda>i j. v)"

text \<open>A tensor whose samples count the positions of a channel row by row.\<close>

definition ramp :: "nat \<Rightarrow> nat \<Rightarrow> nat \<Rightarrow> tensor" where
  "ramp c h w = Arr3 c h w (\<lambda>k i j. Fin (of_nat (i * w + j)))"

text \<open>A model that enlarges its patch \<open>sf\<close> times by repeating samples.\<close>

definition nearest :: "nat \<Rightarrow> net" where
  "nearest sf p = Inr (Arr3 (d0 p) (d1 p * sf) (d2 p * sf) (\<lambda>k i j. el p k (i div sf) (j div sf)))"

text \<open>An installation without network and without any checkpoint file.\<close>

definition offline :: env where
  "offline =
     \<lparr>load_file_from_url = (\<lambda>url dir name. Inl OSError),
      path_exists = (\<lambda>p. False),
      load_net = (\<lambda>filename scale. Inl OSError),
      model_path = ''models/SwinIR'',
      SWIN_tile = 192,
      SWIN_tile_overlap = 8,
      uint8_of_nan = 0\<rparr>"

section \<open>Notions used in the statements\<close>

text \<open>The patches the model was called on, in order.\<close>

fun calls :: "event list \<Rightarrow> tensor list" where
  "calls [] = []"
| "calls (Invoke p # es) = p # calls es"
| "calls (Zeros c h w # es) = calls es"

text \<open>
  Index \<open>i\<close> of a buffer axis of extent \<open>n\<close> lies in the slice
  \<open>idx * sf : (idx + tile) * sf\<close> that a tile with origin \<open>idx\<close> writes.
\<close>

definition in_span :: "nat \<Rightarrow> int \<Rightarrow> int \<Rightarrow> int \<Rightarrow> nat \<Rightarrow> bool" where
  "in_span n tile sf idx i \<longleftrightarrow>
     norm_index n (idx * sf) \<le> i \<and> i < norm_index n ((idx + tile) * sf)"

definition in_region :: "tensor \<Rightarrow> int \<Rightarrow> int \<Rightarrow> int \<times> int \<Rightarrow> nat \<Rightarrow> nat \<Rightarrow> bool" where
  "in_region B tile sf origin i j \<longleftrightarrow>
     in_span (d1 B) tile sf (fst origin) i \<and> in_span (d2 B) tile sf (snd origin) j"

text \<open>
  The sample that the tile at \<open>origin\<close> adds to position \<open>(k, i, j)\<close> of \<open>E\<close>: the
  model's output for the tile's patch, broadcast to the region and read relative to
  the region's corner.
\<close>

definition tile_sample ::
  "tensor \<Rightarrow> net \<Rightarrow> int \<Rightarrow> int \<Rightarrow> tensor \<Rightarrow> int \<times> int \<Rightarrow> nat \<Rightarrow> nat \<Rightarrow> nat \<Rightarrow> fl" where
  "tile_sample img model tile sf B origin k i j =
     (let a1 = norm_index (d1 B) (fst origin * sf);
          b1 = norm_index (d1 B) ((fst origin + tile) * sf);
          a2 = norm_index (d2 B) (snd origin * sf);
          b2 = norm_index (d2 B) ((snd origin + tile) * sf)
      in el (expand (d0 B) (b1 - a1) (b2 - a2)
               (projr (model (in_patch img tile (fst origin) (snd origin)))))
            k (i - a1) (j - a2))"

text \<open>
  The interface the module expects of the model: it accepts every patch and returns
  one with the same channels and \<open>sf\<close> times the rows and columns.
\<close>

definition well_shaped :: "net \<Rightarrow> int \<Rightarrow> bool" where
  "well_shaped model sf \<longleftrightarrow>
     (\<forall>p. \<exists>out. model p = Inr out \<and> d0 out = d0 p
            \<and> int (d1 out) = int (d1 p) * sf \<and> int (d2 out) = int (d2 p) * sf)"

section \<open>Padding\<close>

lemma norm_index_0 [simp]: "norm_index n 0 = 0"
  by (simp add: norm_index_def)

lemma norm_index_le: "norm_index n i \<le> n"
  by (auto simp: norm_index_def)

lemma norm_index_nonneg: "0 \<le> i \<Longrightarrow> norm_index n i = min n (nat i)"
  by (simp add: norm_index_def)

lemma pad_d0 [simp]: "d0 (pad img hp wp) = d0 img"
  by (simp add: pad_def Let_def slice1_def slice2_def cat1_def cat2_def flip1_def flip2_def)

lemma pad_d1: "d1 (pad img hp wp) = norm_index (2 * d1 img) (int (d1 img) + hp)"
  by (simp add: pad_def Let_def slice1_def slice2_def cat1_def cat2_def flip1_def flip2_def mult_2)

lemma pad_d2: "d2 (pad img hp wp) = norm_index (2 * d2 img) (int (d2 img) + wp)"
  by (simp add: pad_def Let_def slice1_def slice2_def cat1_def cat2_def flip1_def flip2_def mult_2)

lemma pad_el:
  assumes "i < d1 (pad img hp wp)" "j < d2 (pad img hp wp)"
  shows "el (pad img hp wp) k i j =
         el img k (if i < d1 img then i else 2 * d1 img - 1 - i)
                  (if j < d2 img then j else 2 * d2 img - 1 - j)"
proof -
  from assms(1) have i: "i < 2 * d1 img"
    using norm_index_le [of "2 * d1 img" "int (d1 img) + hp"] by (simp add: pad_d1)
  from assms(2) have j: "j < 2 * d2 img"
    using norm_index_le [of "2 * d2 img" "int (d2 img) + wp"] by (simp add: pad_d2)
  have "d1 img - 1 - (i - d1 img) = 2 * d1 img - 1 - i" if "\<not> i < d1 img"
    using that i by simp
  moreover have "d2 img - 1 - (j - d2 img) = 2 * d2 img - 1 - j" if "\<not> j < d2 img"
    using that j by simp
  ultimately show ?thesis
    by (simp add: pad_def Let_def slice1_def slice2_def cat1_def cat2_def flip1_def flip2_def)
qed

lemma pad_amount_pos:
  assumes "0 < ws"
  shows "pad_amount n ws = Inr (ws - int n mod ws)"
proof -
  have "(int n div ws + 1) * ws - int n = ws - int n mod ws"
    by (simp add: algebra_simps minus_mult_div_eq_mod [symmetric])
  with assms show ?thesis by (simp add: pad_amount_def)
qed

lemma padded_extent:
  assumes "0 < ws"
  shows "norm_index (2 * n) (int n + (ws - int n mod ws)) = min (2 * n) (n + nat (ws - int n mod ws))"
proof -
  have "int n mod ws < ws" using assms by simp
  then have "0 \<le> int n + (ws - int n mod ws)"
    and "nat (int n + (ws - int n mod ws)) = n + nat (ws - int n mod ws)"
    by simp_all
  then show ?thesis
    by (simp add: norm_index_nonneg)
qed

text \<open>
  Claim C3. For a positive window size the padding amount
  \<open>(dim // window_size + 1) * window_size - dim\<close> is computed without error and lies
  between 1 and the window size. When the extent is already a multiple of the window
  size the amount is a whole window, and the padded tensor of a non-empty image has
  \<open>dim + window_size\<close> rows.
\<close>

theorem pad_amount_at_least_one:
  assumes "0 < ws"
  shows "\<exists>p. pad_amount n ws = Inr p \<and> 1 \<le> p \<and> p \<le> ws \<and>
           (ws dvd int n \<longrightarrow> p = ws \<and>
              (\<forall>img wp. d1 img = n \<and> 0 < n \<longrightarrow> int (d1 (pad img p wp)) = int n + ws))"
proof -
  let ?p = "ws - int n mod ws"
  have m: "0 \<le> int n mod ws" "int n mod ws < ws" using assms by simp_all
  have 1: "pad_amount n ws = Inr ?p" using assms by (rule pad_amount_pos)
  have 2: "1 \<le> ?p" "?p \<le> ws" using m by simp_all
  have 3: "int (d1 (pad img ?p wp)) = int n + ws"
    if dv: "ws dvd int n" and n: "d1 img = n" "0 < n" for img wp
  proof -
    from dv have z: "int n mod ws = 0" by simp
    from dv n(2) assms have "ws \<le> int n" by (simp add: zdvd_imp_le)
    then have "n + nat ws \<le> 2 * n" by simp
    then show ?thesis
      using padded_extent [OF assms, of n] assms by (simp add: pad_d1 n z min_def)
  qed
  show ?thesis
    using 1 2 3 by (intro exI [of _ ?p]) auto
qed

text \<open>An instance: 16 rows, window size 8.\<close>

theorem pad_amount_at_least_one_witness:
  "pad_amount 16 8 = Inr 8 \<and> d1 (pad (zeros 3 16 16) 8 8) = 24"
  using pad_amount_at_least_one [of 8 16]
  by (auto simp: zeros_def)

lemma next_multiple:
  fixes ws :: int
  assumes "0 < ws"
  shows "ws dvd int n + (ws - int n mod ws)"
    and "int n < int n + (ws - int n mod ws)"
    and "ws dvd m \<Longrightarrow> int n < m \<Longrightarrow> int n + (ws - int n mod ws) \<le> m"
proof -
  have eq: "int n + (ws - int n mod ws) = (int n div ws + 1) * ws"
    by (simp add: algebra_simps minus_mult_div_eq_mod [symmetric])
  show "ws dvd int n + (ws - int n mod ws)"
    unfolding eq by simp
  show "int n < int n + (ws - int n mod ws)"
    using assms by simp
  show "int n + (ws - int n mod ws) \<le> m" if "ws dvd m" "int n < m"
  proof -
    from that(1) obtain q where q: "m = ws * q" ..
    have "int n div ws < q"
    proof (rule ccontr)
      assume "\<not> int n div ws < q"
      then have "q \<le> int n div ws" by simp
      then have "ws * q \<le> ws * (int n div ws)"
        using assms by (simp add: mult_left_mono)
      also have "\<dots> \<le> int n"
        using mult_div_mod_eq [of ws "int n"] pos_mod_sign [OF assms, of "int n"] by linarith
      finally show False using that(2) q by simp
    qed
    then have "int n div ws + 1 \<le> q" by simp
    then have "(int n div ws + 1) * ws \<le> q * ws"
      using assms by (simp add: mult_right_mono)
    then show ?thesis by (simp add: eq q mult.commute)
  qed
qed

lemma prepare_pos:
  assumes "0 < ws"
  shows "prepare a ws =
           Inr (pad (to_tensor a) (ws - int (d0 a) mod ws) (ws - int (d1 a) mod ws))"
  using assms by (simp add: prepare_def pad_amount_pos to_tensor_def)

text \<open>
  Claim C2 says that the padded extents are the smallest multiples of the window size
  that are at least the original extents. An image of 8 by 8 pixels with window size 8
  is padded to 16 by 16, although 8 is itself a multiple of 8 and below 16.
\<close>

theorem padded_extent_not_least:
  "map_sum id d1 (prepare (solid 8 8 3 0) 8) = Inr 16
   \<and> map_sum id d2 (prepare (solid 8 8 3 0) 8) = Inr 16
   \<and> (8 :: int) dvd int 8 \<and> (8 :: nat) < 16"
  by (simp add: prepare_pos pad_d1 pad_d2 to_tensor_def solid_def norm_index_def)

text \<open>
  Claim C2, amended. For a positive window size the preparation returns a tensor with
  the channels of the image, whose height is the original height plus the padding
  amount, capped at twice the original height (and likewise the width). Where the
  padding amount does not exceed the original extent, the padded extent is the
  smallest multiple of the window size strictly greater than the original one. Every
  sample of the margin mirrors the image about its bottom or right edge; no sample
  is a fill value.
\<close>

theorem prepare_padded:
  assumes "0 < ws"
  shows "\<exists>t. prepare a ws = Inr t \<and> d0 t = d2 a
     \<and> d1 t = min (2 * d0 a) (d0 a + nat (ws - int (d0 a) mod ws))
     \<and> d2 t = min (2 * d1 a) (d1 a + nat (ws - int (d1 a) mod ws))
     \<and> (nat (ws - int (d0 a) mod ws) \<le> d0 a \<longrightarrow>
          ws dvd int (d1 t) \<and> d0 a < d1 t \<and> (\<forall>m. ws dvd int m \<and> d0 a < m \<longrightarrow> d1 t \<le> m))
     \<and> (nat (ws - int (d1 a) mod ws) \<le> d1 a \<longrightarrow>
          ws dvd int (d2 t) \<and> d1 a < d2 t \<and> (\<forall>m. ws dvd int m \<and> d1 a < m \<longrightarrow> d2 t \<le> m))
     \<and> (\<forall>k i j. i < d1 t \<and> j < d2 t \<longrightarrow>
          el t k i j = el (to_tensor a) k (if i < d0 a then i else 2 * d0 a - 1 - i)
                                         (if j < d1 a then j else 2 * d1 a - 1 - j))"
proof -
  let ?t = "pad (to_tensor a) (ws - int (d0 a) mod ws) (ws - int (d1 a) mod ws)"
  have least: "ws dvd int (n + nat (ws - int n mod ws)) \<and> n < n + nat (ws - int n mod ws)
      \<and> (\<forall>m. ws dvd int m \<and> n < m \<longrightarrow> n + nat (ws - int n mod ws) \<le> m)" for n
  proof -
    have p: "0 < ws - int n mod ws" using assms by simp
    then have e: "int (n + nat (ws - int n mod ws)) = int n + (ws - int n mod ws)" by simp
    have "n + nat (ws - int n mod ws) \<le> m" if "ws dvd int m" "n < m" for m
    proof -
      from that have "int n + (ws - int n mod ws) \<le> int m"
        by (intro next_multiple(3) [OF assms]) simp_all
      with e show ?thesis by linarith
    qed
    moreover have "ws dvd int (n + nat (ws - int n mod ws))"
      unfolding e by (rule next_multiple(1) [OF assms])
    moreover have "n < n + nat (ws - int n mod ws)" using p by simp
    ultimately show ?thesis by blast
  qed
  have 1: "prepare a ws = Inr ?t" using assms by (rule prepare_pos)
  have 2: "d0 ?t = d2 a" by (simp add: to_tensor_def)
  have 3: "d1 ?t = min (2 * d0 a) (d0 a + nat (ws - int (d0 a) mod ws))"
    using padded_extent [OF assms, of "d0 a"] by (simp add: pad_d1 to_tensor_def)
  have 4: "d2 ?t = min (2 * d1 a) (d1 a + nat (ws - int (d1 a) mod ws))"
    using padded_extent [OF assms, of "d1 a"] by (simp add: pad_d2 to_tensor_def)
  have 5: "ws dvd int (d1 ?t) \<and> d0 a < d1 ?t \<and> (\<forall>m. ws dvd int m \<and> d0 a < m \<longrightarrow> d1 ?t \<le> m)"
    if "nat (ws - int (d0 a) mod ws) \<le> d0 a"
  proof -
    from that have eq: "d1 ?t = d0 a + nat (ws - int (d0 a) mod ws)" by (simp add: 3)
    show ?thesis unfolding eq by (rule least)
  qed
  have 6: "ws dvd int (d2 ?t) \<and> d1 a < d2 ?t \<and> (\<forall>m. ws dvd int m \<and> d1 a < m \<longrightarrow> d2 ?t \<le> m)"
    if "nat (ws - int (d1 a) mod ws) \<le> d1 a"
  proof -
    from that have eq: "d2 ?t = d1 a + nat (ws - int (d1 a) mod ws)" by (simp add: 4)
    show ?thesis unfolding eq by (rule least)
  qed
  have 7: "el ?t k i j = el (to_tensor a) k (if i < d0 a then i else 2 * d0 a - 1 - i)
                                         (if j < d1 a then j else 2 * d1 a - 1 - j)"
    if "i < d1 ?t" "j < d2 ?t" for k i j
    using pad_el [OF that, of k] by (simp add: to_tensor_def)
  show ?thesis
    using 1 2 3 4 5 6 7 by (intro exI [of _ ?t]) blast
qed

text \<open>An instance: 130 by 130 pixels, window size 8.\<close>

theorem prepare_padded_witness:
  "\<exists>t. prepare (solid 130 130 3 51) 8 = Inr t \<and> d0 t = 3 \<and> d1 t = 136 \<and> d2 t = 136
     \<and> el t 0 135 135 = Fin (1 / 5)"
  using prepare_padded [of 8 "solid 130 130 3 51"]
  by (auto simp: solid_def to_tensor_def)

section \<open>One tile\<close>

lemma add_region_Inr:
  assumes "add_region B lo1 hi1 lo2 hi2 p = Inr B'"
  shows "d0 B' = d0 B" "d1 B' = d1 B" "d2 B' = d2 B"
    and "el B' k i j =
          (if norm_index (d1 B) lo1 \<le> i \<and> i < norm_index (d1 B) hi1
              \<and> norm_index (d2 B) lo2 \<le> j \<and> j < norm_index (d2 B) hi2
           then fadd (el B k i j)
                  (el (expand (d0 B) (norm_index (d1 B) hi1 - norm_index (d1 B) lo1)
                         (norm_index (d2 B) hi2 - norm_index (d2 B) lo2) p)
                      k (i - norm_index (d1 B) lo1) (j - norm_index (d2 B) lo2))
           else el B k i j)"
  using assms by (auto simp: add_region_def Let_def split: if_splits)

lemma add_region_ok:
  "add_region B lo1 hi1 lo2 hi2 p =
     (if bcast_ok (d0 B) (norm_index (d1 B) hi1 - norm_index (d1 B) lo1)
           (norm_index (d2 B) hi2 - norm_index (d2 B) lo2) p
      then Inr (projr (add_region B lo1 hi1 lo2 hi2 p)) else Inl RuntimeError)"
  by (simp add: add_region_def Let_def)

lemma expand_ones [simp]: "el (expand c h w (ones_like p)) k i j = Fin 1"
  by (simp add: expand_def ones_like_def)

lemma tile_step_Inr:
  assumes "tile_step img model tile sf origin (E, W) = (ev, Inr (E', W'))"
  shows "d0 E' = d0 E" "d1 E' = d1 E" "d2 E' = d2 E"
    and "d0 W' = d0 W" "d1 W' = d1 W" "d2 W' = d2 W"
    and "ev = [Invoke (in_patch img tile (fst origin) (snd origin))]"
    and "el E' k i j = (if in_region E tile sf origin i j
                        then fadd (el E k i j) (tile_sample img model tile sf E origin k i j)
                        else el E k i j)"
    and "el W' k i j = (if in_region W tile sf origin i j
                        then fadd (el W k i j) (Fin 1) else el W k i j)"
proof -
  obtain h_idx w_idx where o: "origin = (h_idx, w_idx)" by (cases origin)
  from assms o obtain P where P: "model (in_patch img tile h_idx w_idx) = Inr P"
    and E': "add_region E (h_idx * sf) ((h_idx + tile) * sf) (w_idx * sf) ((w_idx + tile) * sf) P = Inr E'"
    and W': "add_region W (h_idx * sf) ((h_idx + tile) * sf) (w_idx * sf) ((w_idx + tile) * sf) (ones_like P) = Inr W'"
    and ev: "ev = [Invoke (in_patch img tile h_idx w_idx)]"
    by (auto simp: tile_step_def split: sum.splits)
  show "d0 E' = d0 E" "d1 E' = d1 E" "d2 E' = d2 E"
    using add_region_Inr(1-3) [OF E'] by simp_all
  show "d0 W' = d0 W" "d1 W' = d1 W" "d2 W' = d2 W"
    using add_region_Inr(1-3) [OF W'] by simp_all
  show "ev = [Invoke (in_patch img tile (fst origin) (snd origin))]"
    using ev o by simp
  show "el E' k i j = (if in_region E tile sf origin i j
                        then fadd (el E k i j) (tile_sample img model tile sf E origin k i j)
                        else el E k i j)"
    using add_region_Inr(4) [OF E', of k i j] P
    by (simp add: o in_region_def in_span_def tile_sample_def Let_def)
  show "el W' k i j = (if in_region W tile sf origin i j
                        then fadd (el W k i j) (Fin 1) else el W k i j)"
    using add_region_Inr(4) [OF W', of k i j]
    by (simp add: o in_region_def in_span_def)
qed

section \<open>All tiles\<close>

lemma in_region_cong:
  "d1 B = d1 B' \<Longrightarrow> d2 B = d2 B' \<Longrightarrow> in_region B tile sf = in_region B' tile sf"
  by (simp add: in_region_def fun_eq_iff)

lemma tile_sample_cong:
  "d0 B = d0 B' \<Longrightarrow> d1 B = d1 B' \<Longrightarrow> d2 B = d2 B' \<Longrightarrow>
   tile_sample img model tile sf B = tile_sample img model tile sf B'"
  by (simp add: tile_sample_def fun_eq_iff)

lemma run_tiles_Inr:
  assumes "run_tiles img model tile sf ts (E, W) = (tr, Inr (E', W'))"
  shows "d0 E' = d0 E \<and> d1 E' = d1 E \<and> d2 E' = d2 E
       \<and> d0 W' = d0 W \<and> d1 W' = d1 W \<and> d2 W' = d2 W
       \<and> tr = map (\<lambda>origin. Invoke (in_patch img tile (fst origin) (snd origin))) ts
       \<and> el E' k i j =
           foldl fadd (el E k i j)
             (map (\<lambda>origin. tile_sample img model tile sf E origin k i j)
                (filter (\<lambda>origin. in_region E tile sf origin i j) ts))
       \<and> el W' k i j =
           foldl fadd (el W k i j)
             (map (\<lambda>origin. Fin 1) (filter (\<lambda>origin. in_region W tile sf origin i j) ts))"
  using assms
proof (induction ts arbitrary: E W tr)
  case Nil
  then show ?case by simp
next
  case (Cons t ts)
  from Cons.prems obtain ev E1 W1 evs where
    step: "tile_step img model tile sf t (E, W) = (ev, Inr (E1, W1))"
    and rest: "run_tiles img model tile sf ts (E1, W1) = (evs, Inr (E', W'))"
    and tr: "tr = ev @ evs"
    by (auto split: prod.splits sum.splits)
  note s = tile_step_Inr [OF step]
  note ih = Cons.IH [OF rest]
  have rE: "in_region E1 tile sf = in_region E tile sf"
    by (rule in_region_cong) (simp_all add: s)
  have rW: "in_region W1 tile sf = in_region W tile sf"
    by (rule in_region_cong) (simp_all add: s)
  have sE: "tile_sample img model tile sf E1 = tile_sample img model tile sf E"
    by (rule tile_sample_cong) (simp_all add: s)
  show ?case
    using ih by (simp add: s tr rE rW sE)
qed

section \<open>The tile schedule\<close>

lemma mult_less_iff_div:
  fixes k c s :: int
  assumes "0 < c"
  shows "k * c < s \<longleftrightarrow> k < (s - 1) div c + 1"
proof -
  define q where "q = (s - 1) div c"
  define r where "r = (s - 1) mod c"
  have r: "0 \<le> r" "r < c" using assms by (simp_all add: r_def)
  have s: "s - 1 = q * c + r" by (simp add: q_def r_def)
  have "k * c < s \<longleftrightarrow> k < q + 1"
  proof (cases "k \<le> q")
    case True
    then have "k * c \<le> q * c" using assms by (intro mult_right_mono) simp_all
    with s r True show ?thesis by linarith
  next
    case False
    then have "q + 1 \<le> k" by simp
    then have "(q + 1) * c \<le> k * c" using assms by (intro mult_right_mono) simp_all
    then have "q * c + c \<le> k * c" by (simp add: algebra_simps)
    with s r False show ?thesis by linarith
  qed
  then show ?thesis by (simp only: q_def)
qed

lemma py_range_up:
  assumes "0 < step"
  shows "py_range 0 stop step =
           Inr (map (\<lambda>k. int k * step) [0..<nat ((stop - 1) div step + 1)])"
proof (cases "0 < stop")
  case True
  with assms show ?thesis by (simp add: py_range_def)
next
  case False
  then have "(stop - 1) div step < 0" using assms by (simp add: div_neg_pos_less0)
  with False assms show ?thesis by (simp add: py_range_def)
qed

lemma set_py_range_up:
  assumes "0 < step"
  shows "set (projr (py_range 0 stop step)) = {x. \<exists>k::nat. x = int k * step \<and> x < stop}"
proof -
  have *: "k < nat ((stop - 1) div step + 1) \<longleftrightarrow> int k * step < stop" for k
    using mult_less_iff_div [OF assms, of "int k" stop] by (simp add: zless_nat_eq_int_zless)
  have "set (projr (py_range 0 stop step)) =
          (\<lambda>k. int k * step) ` {k. k < nat ((stop - 1) div step + 1)}"
    by (simp add: py_range_up [OF assms] atLeast0LessThan lessThan_def)
  also have "\<dots> = (\<lambda>k. int k * step) ` {k. int k * step < stop}"
    by (simp only: *)
  also have "\<dots> = {x. \<exists>k::nat. x = int k * step \<and> x < stop}"
    by blast
  finally show ?thesis .
qed

lemma py_range_down:
  assumes "step < 0" "0 \<le> stop"
  shows "py_range 0 stop step = Inr []"
  using assms by (simp add: py_range_def)

lemma idx_list_up:
  assumes "0 < stride"
  shows "idx_list n tile stride =
           Inr (map (\<lambda>k. int k * stride) [0..<nat ((int n - tile - 1) div stride + 1)]
                @ [int n - tile])"
  by (simp add: idx_list_def py_range_up [OF assms])

lemma set_idx_list_up:
  assumes "0 < stride"
  shows "set (projr (idx_list n tile stride)) =
           insert (int n - tile) {x. \<exists>k::nat. x = int k * stride \<and> x < int n - tile}"
  using set_py_range_up [OF assms, of "int n - tile"]
  by (simp add: idx_list_def py_range_up [OF assms])

lemma idx_list_bounds:
  assumes "0 < stride" "tile \<le> int n" "r \<in> set (projr (idx_list n tile stride))"
  shows "0 \<le> r \<and> r + tile \<le> int n"
  using assms by (auto simp: set_idx_list_up)

lemma idx_list_cover:
  assumes "0 \<le> ov" "ov < tile" "tile \<le> int n" "i < n"
  shows "\<exists>r \<in> set (projr (idx_list n tile (tile - ov))). r \<le> int i \<and> int i < r + tile"
proof -
  let ?s = "tile - ov"
  have s: "0 < ?s" "?s \<le> tile" using assms by simp_all
  show ?thesis
  proof (cases "int n - tile \<le> int i")
    case True
    with assms(4) show ?thesis by (auto simp: set_idx_list_up [OF s(1)])
  next
    case False
    define k where "k = nat (int i div ?s)"
    have k0: "0 \<le> int i div ?s" using s by (simp add: pos_imp_zdiv_nonneg_iff)
    then have k: "int k = int i div ?s" by (simp add: k_def)
    have dm: "int i = int k * ?s + int i mod ?s"
      unfolding k by (simp only: div_mult_mod_eq)
    have le: "int k * ?s \<le> int i"
      using dm pos_mod_sign [OF s(1), of "int i"] by linarith
    have lt: "int i < int k * ?s + ?s"
      using dm pos_mod_bound [OF s(1), of "int i"] by linarith
    from le False have "int k * ?s < int n - tile" by simp
    then have "int k * ?s \<in> set (projr (idx_list n tile ?s))"
      by (auto simp: set_idx_list_up [OF s(1)])
    moreover from lt s have "int i < int k * ?s + tile" by simp
    ultimately show ?thesis using le by blast
  qed
qed

lemma idx_list_down:
  assumes "stride < 0" "tile \<le> int n"
  shows "idx_list n tile stride = Inr [int n - tile]"
  using assms by (simp add: idx_list_def py_range_down)

lemma idx_list_zero: "idx_list n tile 0 = Inl ValueError"
  by (simp add: idx_list_def py_range_def)

section \<open>Configuration errors of \<open>inference\<close>\<close>

lemma accumulate_window_zero:
  "accumulate img model tile tile_overlap 0 scale = ([], Inl ZeroDivisionError)"
  by (simp add: accumulate_def)

lemma accumulate_assert:
  assumes "window_size \<noteq> 0"
    and "\<not> window_size dvd min tile (min (int (d1 img)) (int (d2 img)))"
  shows "accumulate img model tile tile_overlap window_size scale = ([], Inl AssertionError)"
  using assms by (simp add: accumulate_def Let_def dvd_eq_mod_eq_0)

lemma accumulate_stride_zero:
  assumes "window_size \<noteq> 0"
    and "window_size dvd min tile (min (int (d1 img)) (int (d2 img)))"
    and "tile_overlap = min tile (min (int (d1 img)) (int (d2 img)))"
  shows "accumulate img model tile tile_overlap window_size scale = ([], Inl ValueError)"
  using assms by (simp add: accumulate_def Let_def dvd_eq_mod_eq_0 idx_list_zero)

lemma accumulate_run:
  assumes "window_size \<noteq> 0"
    and "window_size dvd min tile (min (int (d1 img)) (int (d2 img)))"
    and "idx_list (d1 img) (min tile (min (int (d1 img)) (int (d2 img))))
           (min tile (min (int (d1 img)) (int (d2 img))) - tile_overlap) = Inr hs"
    and "idx_list (d2 img) (min tile (min (int (d1 img)) (int (d2 img))))
           (min tile (min (int (d1 img)) (int (d2 img))) - tile_overlap) = Inr wl"
    and "0 \<le> int (d1 img) * scale" "0 \<le> int (d2 img) * scale"
  shows "accumulate img model tile tile_overlap window_size scale =
     (case run_tiles img model (min tile (min (int (d1 img)) (int (d2 img)))) scale
             (List.product hs wl)
             (zeros (d0 img) (nat (int (d1 img) * scale)) (nat (int (d2 img) * scale)),
              zeros (d0 img) (nat (int (d1 img) * scale)) (nat (int (d2 img) * scale))) of
        (tr, r) \<Rightarrow>
          (Zeros (d0 img) (nat (int (d1 img) * scale)) (nat (int (d2 img) * scale))
           # Zeros (d0 img) (nat (int (d1 img) * scale)) (nat (int (d2 img) * scale)) # tr, r))"
  using assms by (simp add: accumulate_def Let_def dvd_eq_mod_eq_0 zeros_def)

lemma inference_Inl:
  "accumulate img model tile tile_overlap window_size scale = (tr, Inl e) \<Longrightarrow>
   inference img model tile tile_overlap window_size scale = (tr, Inl e)"
  by (simp add: inference_def)

lemma inference_Inr:
  "accumulate img model tile tile_overlap window_size scale = (tr, Inr (E, W)) \<Longrightarrow>
   inference img model tile tile_overlap window_size scale = (tr, Inr (div_inplace E W))"
  by (simp add: inference_def)

lemma upscale_Inl:
  "prepare a window_size = Inr img \<Longrightarrow>
   inference img model tile tile_overlap window_size scale = (tr, Inl e) \<Longrightarrow>
   upscale nan_cast (Nd3 a) model tile tile_overlap window_size scale = (tr, Inl e)"
  by (simp add: upscale_def)

lemma prepare_Inr_window: "prepare a window_size = Inr img \<Longrightarrow> window_size \<noteq> 0"
  by (auto simp: prepare_def pad_amount_def Let_def)

text \<open>
  Claim C7. When the tile size, clamped to the height and width of the padded image,
  is not a multiple of the window size, \<open>inference\<close> raises at once (the
  AssertionError of line 117; ZeroDivisionError from \<open>%\<close> if the window size is 0)
  and the trace is empty: neither buffer was allocated and the model was not called.
  The same holds for \<open>upscale\<close> on an image whose padded tensor this is.
\<close>

theorem tile_not_multiple_fails:
  assumes "\<not> window_size dvd min tile (min (int (d1 img)) (int (d2 img)))"
  shows "inference img model tile tile_overlap window_size scale =
           ([], Inl (if window_size = 0 then ZeroDivisionError else AssertionError))
       \<and> (\<forall>nan_cast a. prepare a window_size = Inr img \<longrightarrow>
            upscale nan_cast (Nd3 a) model tile tile_overlap window_size scale =
              ([], Inl AssertionError))"
proof -
  have 1: "inference img model tile tile_overlap window_size scale =
           ([], Inl (if window_size = 0 then ZeroDivisionError else AssertionError))"
    using assms by (auto intro!: inference_Inl simp: accumulate_window_zero accumulate_assert)
  have "upscale nan_cast (Nd3 a) model tile tile_overlap window_size scale =
              ([], Inl AssertionError)"
    if "prepare a window_size = Inr img" for nan_cast a
    using that 1 prepare_Inr_window [OF that] by (simp add: upscale_Inl)
  with 1 show ?thesis by blast
qed

text \<open>The error scenario of the specification: tile size 50, window size 8.\<close>

theorem tile_not_multiple_fails_witness:
  "\<not> (8 :: int) dvd min 50 (min (int 64) (int 64))
   \<and> prepare (solid 56 56 3 0) 8 = Inr (pad (to_tensor (solid 56 56 3 0)) 8 8)
   \<and> inference (pad (to_tensor (solid 56 56 3 0)) 8 8) (nearest 4) 50 8 8 4
        = ([], Inl AssertionError)
   \<and> upscale 0 (Nd3 (solid 56 56 3 0)) (nearest 4) 50 8 8 4 = ([], Inl AssertionError)"
proof -
  let ?img = "pad (to_tensor (solid 56 56 3 0)) 8 8"
  have d: "d1 ?img = 64" "d2 ?img = 64"
    by (simp_all add: pad_d1 pad_d2 to_tensor_def solid_def norm_index_def)
  have p: "prepare (solid 56 56 3 0) 8 = Inr ?img"
    by (simp add: prepare_pos solid_def)
  have h: "\<not> (8 :: int) dvd min 50 (min (int (d1 ?img)) (int (d2 ?img)))"
    by (simp add: d)
  show ?thesis
    using tile_not_multiple_fails [OF h, of "nearest 4" 8 4] p by simp
qed

text \<open>
  Claim C6, amended. When the overlap equals the clamped tile size, \<open>inference\<close>
  raises with an empty trace, before any buffer is allocated or the model is called:
  ValueError from \<open>range\<close> (the stride is 0) if the tile passes the window check,
  and the error of that check otherwise. \<open>upscale\<close> fails likewise.
\<close>

theorem overlap_equal_tile_fails:
  assumes "tile_overlap = min tile (min (int (d1 img)) (int (d2 img)))"
  shows "inference img model tile tile_overlap window_size scale =
           ([], Inl (if window_size = 0 then ZeroDivisionError
                     else if \<not> window_size dvd tile_overlap then AssertionError
                     else ValueError))
       \<and> (\<forall>nan_cast a. prepare a window_size = Inr img \<longrightarrow>
            isl (snd (upscale nan_cast (Nd3 a) model tile tile_overlap window_size scale))
            \<and> fst (upscale nan_cast (Nd3 a) model tile tile_overlap window_size scale) = [])"
proof -
  let ?e = "if window_size = 0 then ZeroDivisionError
            else if \<not> window_size dvd tile_overlap then AssertionError else ValueError"
  have "accumulate img model tile tile_overlap window_size scale = ([], Inl ?e)"
    using assms accumulate_assert [of window_size tile img model tile_overlap scale]
      accumulate_stride_zero [of window_size tile img tile_overlap model scale]
    by (simp add: accumulate_window_zero)
  then have 1: "inference img model tile tile_overlap window_size scale = ([], Inl ?e)"
    by (rule inference_Inl)
  have "upscale nan_cast (Nd3 a) model tile tile_overlap window_size scale = ([], Inl ?e)"
    if "prepare a window_size = Inr img" for nan_cast a
    using that 1 by (rule upscale_Inl)
  with 1 show ?thesis by simp
qed

text \<open>An instance: a padded image of 16 by 16, tile size 8, overlap 8.\<close>

theorem overlap_equal_tile_fails_witness:
  "inference (zeros 3 16 16) (nearest 4) 8 8 8 4 = ([], Inl ValueError)
   \<and> upscale 0 (Nd3 (solid 8 8 3 0)) (nearest 4) 8 8 8 4 = ([], Inl ValueError)"
proof -
  let ?img = "pad (to_tensor (solid 8 8 3 0)) 8 8"
  have d: "d1 ?img = 16" "d2 ?img = 16"
    by (simp_all add: pad_d1 pad_d2 to_tensor_def solid_def norm_index_def)
  have p: "prepare (solid 8 8 3 0) 8 = Inr ?img"
    by (simp add: prepare_pos solid_def)
  have h: "(8 :: int) = min 8 (min (int (d1 ?img)) (int (d2 ?img)))"
    by (simp add: d)
  have h': "(8 :: int) = min 8 (min (int (d1 (zeros 3 16 16))) (int (d2 (zeros 3 16 16))))"
    by (simp add: zeros_def)
  have "inference ?img (nearest 4) 8 8 8 4 = ([], Inl ValueError)"
    using overlap_equal_tile_fails [OF h, of "nearest 4" 8 4] by simp
  then have "upscale 0 (Nd3 (solid 8 8 3 0)) (nearest 4) 8 8 8 4 = ([], Inl ValueError)"
    using p by (rule upscale_Inl [rotated])
  moreover have "inference (zeros 3 16 16) (nearest 4) 8 8 8 4 = ([], Inl ValueError)"
    using overlap_equal_tile_fails [OF h', of "nearest 4" 8 4] by simp
  ultimately show ?thesis by simp
qed

text \<open>
  Claim C6 says that an overlap of at least the clamped tile size makes \<open>upscale\<close>
  fail before the model is called. With an image of 8 by 8 pixels (padded to 16 by
  16), tile size 8 and overlap 9 the stride is negative, \<open>range\<close> is empty, and
  \<open>upscale\<close> returns an image after one call of the model.
\<close>

theorem overlap_above_tile_runs:
  "\<not> isl (snd (upscale 0 (Nd3 (solid 8 8 3 0)) (nearest 4) 8 9 8 4))
   \<and> length (calls (fst (upscale 0 (Nd3 (solid 8 8 3 0)) (nearest 4) 8 9 8 4))) = 1"
  by (simp add: upscale_def prepare_def pad_amount_def solid_def to_tensor_def pad_def
      slice1_def slice2_def cat1_def cat2_def flip1_def flip2_def norm_index_def Let_def
      inference_def accumulate_def zeros_def idx_list_def py_range_def tile_step_def
      in_patch_def nearest_def add_region_def bcast_ok_def expand_def ones_like_def
      squeeze_def reorder_def div_inplace_def)

section \<open>\<open>do_upscale\<close> without a model\<close>

lemma load_model_None_iff:
  "load_model env path scale = Inr None \<longleftrightarrow>
     resolve_filename env path = Inr None
     \<or> (\<exists>filename. resolve_filename env path = Inr (Some filename)
            \<and> \<not> path_exists env filename)"
  by (auto simp: load_model_def split: sum.splits option.splits)

text \<open>
  Claim C10. \<open>load_model\<close> returns None exactly when the resolved file name is None
  or names no existing file, and then \<open>do_upscale\<close> returns the image it was given
  with an empty trace: no buffer was allocated and no model was called.
\<close>

theorem do_upscale_without_model:
  "(load_model env model_file 4 = Inr None \<longleftrightarrow>
      resolve_filename env model_file = Inr None
      \<or> (\<exists>filename. resolve_filename env model_file = Inr (Some filename)
             \<and> \<not> path_exists env filename))
   \<and> (load_model env model_file 4 = Inr None \<longrightarrow>
        do_upscale env img model_file = ([], Inr img))"
proof -
  have "do_upscale env img model_file = ([], Inr img)"
    if "load_model env model_file 4 = Inr None"
    using that by (simp add: do_upscale_def)
  then show ?thesis
    using load_model_None_iff [of env model_file 4] by blast
qed

text \<open>An instance: the checkpoint file does not exist.\<close>

theorem do_upscale_without_model_witness:
  "load_model offline ''SwinIR_4x.pth'' 4 = Inr None
   \<and> do_upscale offline (Nd3 (solid 2 2 3 7)) ''SwinIR_4x.pth''
       = ([], Inr (Nd3 (solid 2 2 3 7)))"
proof -
  have "resolve_filename offline ''SwinIR_4x.pth'' = Inr (Some ''SwinIR_4x.pth'')"
    by (simp add: resolve_filename_def)
  moreover have "\<not> path_exists offline ''SwinIR_4x.pth''"
    by (simp add: offline_def)
  ultimately show ?thesis
    using do_upscale_without_model [of offline "''SwinIR_4x.pth''" "Nd3 (solid 2 2 3 7)"]
    by blast
qed

section \<open>Regions of scheduled tiles\<close>

lemma norm_index_within:
  assumes "0 \<le> x" "x \<le> int n"
  shows "norm_index n x = nat x"
  using assms by (simp add: norm_index_def)

lemma scaled_le:
  fixes a b sf :: int
  assumes "0 \<le> sf" "a \<le> b"
  shows "a * sf \<le> b * sf"
  using assms by (rule mult_right_mono [rotated])

lemma in_span_valid:
  assumes "0 \<le> sf" "0 \<le> r" "0 \<le> tile" "r + tile \<le> int n"
  shows "in_span (nat (int n * sf)) tile sf r i \<longleftrightarrow>
           r * sf \<le> int i \<and> int i < (r + tile) * sf"
proof -
  have a: "0 \<le> r * sf" using assms by simp
  have b: "r * sf \<le> (r + tile) * sf" using assms by (intro scaled_le) simp_all
  have c: "(r + tile) * sf \<le> int n * sf" using assms by (intro scaled_le) simp_all
  have n: "int (nat (int n * sf)) = int n * sf" using assms by simp
  have 1: "norm_index (nat (int n * sf)) (r * sf) = nat (r * sf)"
    using a b c by (intro norm_index_within) (simp_all add: n)
  have 2: "norm_index (nat (int n * sf)) ((r + tile) * sf) = nat ((r + tile) * sf)"
    using a b c by (intro norm_index_within) (simp_all add: n)
  show ?thesis
    unfolding in_span_def 1 2 using a b by (simp add: nat_le_iff zless_nat_eq_int_zless)
qed

lemma span_extent:
  assumes "0 \<le> sf" "0 \<le> r" "0 \<le> tile" "r + tile \<le> int n"
  shows "norm_index (nat (int n * sf)) ((r + tile) * sf) - norm_index (nat (int n * sf)) (r * sf)
           = nat (tile * sf)"
proof -
  have a: "0 \<le> r * sf" using assms by simp
  have b: "r * sf \<le> (r + tile) * sf" using assms by (intro scaled_le) simp_all
  have c: "(r + tile) * sf \<le> int n * sf" using assms by (intro scaled_le) simp_all
  have n: "int (nat (int n * sf)) = int n * sf" using assms by simp
  have 1: "norm_index (nat (int n * sf)) (r * sf) = nat (r * sf)"
    using a b c by (intro norm_index_within) (simp_all add: n)
  have 2: "norm_index (nat (int n * sf)) ((r + tile) * sf) = nat ((r + tile) * sf)"
    using a b c by (intro norm_index_within) (simp_all add: n)
  have "(r + tile) * sf - r * sf = tile * sf" by (simp add: algebra_simps)
  then show ?thesis
    unfolding 1 2 using a b by (simp add: nat_diff_distrib')
qed

lemma in_patch_extent:
  assumes "0 \<le> r" "0 \<le> tile" "r + tile \<le> int (d1 img)"
    and "0 \<le> c" "c + tile \<le> int (d2 img)"
  shows "d0 (in_patch img tile r c) = d0 img"
    and "d1 (in_patch img tile r c) = nat tile"
    and "d2 (in_patch img tile r c) = nat tile"
  using assms
  by (simp_all add: in_patch_def slice1_def slice2_def Let_def norm_index_within nat_diff_distrib')

lemma scaled_position:
  fixes sf r tile :: int
  assumes "0 < sf" "r \<le> int i' div sf" "int i' div sf < r + tile"
  shows "r * sf \<le> int i' \<and> int i' < (r + tile) * sf"
proof -
  let ?q = "int i' div sf"
  have dm: "int i' = ?q * sf + int i' mod sf" by (simp only: div_mult_mod_eq)
  have m: "0 \<le> int i' mod sf" "int i' mod sf < sf" using assms(1) by simp_all
  have "r * sf \<le> ?q * sf" using assms by (intro scaled_le) simp_all
  moreover have "(?q + 1) * sf \<le> (r + tile) * sf" using assms by (intro scaled_le) simp_all
  then have "?q * sf + sf \<le> (r + tile) * sf" by (simp add: algebra_simps)
  ultimately show ?thesis using dm m by linarith
qed

section \<open>Sums of ones\<close>

lemma foldl_fadd_ones:
  "foldl fadd (Fin q) (map (\<lambda>x. Fin 1) xs) = Fin (q + of_nat (length xs))"
  by (induction xs arbitrary: q) (simp_all add: algebra_simps)

section \<open>Runs that succeed\<close>

lemma bcast_ok_ones [simp]: "bcast_ok c h w (ones_like p) = bcast_ok c h w p"
  by (simp add: bcast_ok_def ones_like_def)

lemma tile_step_succeeds:
  assumes "model (in_patch img tile (fst origin) (snd origin)) = Inr P"
    and "bcast_ok (d0 E)
           (norm_index (d1 E) ((fst origin + tile) * sf) - norm_index (d1 E) (fst origin * sf))
           (norm_index (d2 E) ((snd origin + tile) * sf) - norm_index (d2 E) (snd origin * sf)) P"
    and "d0 W = d0 E" "d1 W = d1 E" "d2 W = d2 E"
  shows "\<exists>E' W'. tile_step img model tile sf origin (E, W) =
           ([Invoke (in_patch img tile (fst origin) (snd origin))], Inr (E', W'))"
  using assms by (cases origin) (simp add: tile_step_def add_region_def Let_def)

lemma run_tiles_succeeds:
  assumes "\<forall>origin \<in> set ts. \<exists>P. model (in_patch img tile (fst origin) (snd origin)) = Inr P
      \<and> bcast_ok c
           (norm_index h ((fst origin + tile) * sf) - norm_index h (fst origin * sf))
           (norm_index w ((snd origin + tile) * sf) - norm_index w (snd origin * sf)) P"
    and "d0 E = c" "d1 E = h" "d2 E = w" "d0 W = c" "d1 W = h" "d2 W = w"
  shows "\<exists>tr E' W'. run_tiles img model tile sf ts (E, W) = (tr, Inr (E', W'))"
  using assms
proof (induction ts arbitrary: E W)
  case Nil
  then show ?case by simp
next
  case (Cons t ts)
  from Cons.prems(1) obtain P where P: "model (in_patch img tile (fst t) (snd t)) = Inr P"
    and ok: "bcast_ok c
           (norm_index h ((fst t + tile) * sf) - norm_index h (fst t * sf))
           (norm_index w ((snd t + tile) * sf) - norm_index w (snd t * sf)) P"
    by auto
  from tile_step_succeeds [of model img tile t P E sf W] P ok Cons.prems(2-7)
  obtain E1 W1 where step: "tile_step img model tile sf t (E, W) =
           ([Invoke (in_patch img tile (fst t) (snd t))], Inr (E1, W1))"
    by auto
  note s = tile_step_Inr(1-6) [OF step]
  have "\<exists>tr E' W'. run_tiles img model tile sf ts (E1, W1) = (tr, Inr (E', W'))"
    using Cons.prems by (intro Cons.IH) (simp_all add: s)
  then show ?case
    using step by auto
qed

section \<open>Accumulation under a valid configuration\<close>

lemma idx_list_Inr:
  "0 < stride \<Longrightarrow> idx_list n tile stride = Inr (projr (idx_list n tile stride))"
  by (simp add: idx_list_up)

lemma in_region_valid:
  assumes "0 \<le> sf" "0 \<le> tile"
    and "0 \<le> r" "r + tile \<le> int h" "0 \<le> c" "c + tile \<le> int w"
    and "d1 B = nat (int h * sf)" "d2 B = nat (int w * sf)"
  shows "in_region B tile sf (r, c) i j \<longleftrightarrow>
           (r * sf \<le> int i \<and> int i < (r + tile) * sf)
           \<and> (c * sf \<le> int j \<and> int j < (c + tile) * sf)"
  using assms by (simp add: in_region_def in_span_valid)

lemma accumulate_valid:
  assumes T: "T = min tile (min (int (d1 img)) (int (d2 img)))"
    and ov: "0 \<le> tile_overlap" "tile_overlap < T"
    and ws: "window_size dvd T"
    and sf: "0 \<le> scale"
  shows "accumulate img model tile tile_overlap window_size scale =
     (case run_tiles img model T scale
             (List.product (projr (idx_list (d1 img) T (T - tile_overlap)))
                           (projr (idx_list (d2 img) T (T - tile_overlap))))
             (zeros (d0 img) (nat (int (d1 img) * scale)) (nat (int (d2 img) * scale)),
              zeros (d0 img) (nat (int (d1 img) * scale)) (nat (int (d2 img) * scale))) of
        (tr, r) \<Rightarrow>
          (Zeros (d0 img) (nat (int (d1 img) * scale)) (nat (int (d2 img) * scale))
           # Zeros (d0 img) (nat (int (d1 img) * scale)) (nat (int (d2 img) * scale)) # tr, r))"
proof -
  have s: "0 < T - tile_overlap" using ov by simp
  have w0: "window_size \<noteq> 0" using ws ov by auto
  show ?thesis
    unfolding T
    by (rule accumulate_run)
      (use w0 ws sf idx_list_Inr [OF s] in \<open>simp_all add: T [symmetric]\<close>)
qed

lemma accumulate_negative_scale:
  assumes T: "T = min tile (min (int (d1 img)) (int (d2 img)))"
    and ov: "0 \<le> tile_overlap" "tile_overlap < T"
    and sf: "scale < 0"
  shows "isl (snd (accumulate img model tile tile_overlap window_size scale))"
proof -
  have s: "0 < T - tile_overlap" using ov by simp
  have "0 < int (d1 img)" using T ov by simp
  then have "int (d1 img) * scale < 0" using sf by (simp add: mult_pos_neg)
  then show ?thesis
    using idx_list_Inr [OF s, of "d1 img" T] idx_list_Inr [OF s, of "d2 img" T]
    by (auto simp: accumulate_def Let_def T [symmetric] split: sum.splits)
qed

lemma accumulate_Inr_valid:
  assumes T: "T = min tile (min (int (d1 img)) (int (d2 img)))"
    and ov: "0 \<le> tile_overlap" "tile_overlap < T"
    and ws: "window_size dvd T"
    and acc: "accumulate img model tile tile_overlap window_size scale = (tr, Inr (E, W))"
  defines "Z \<equiv> zeros (d0 img) (nat (int (d1 img) * scale)) (nat (int (d2 img) * scale))"
    and "ts \<equiv> List.product (projr (idx_list (d1 img) T (T - tile_overlap)))
                           (projr (idx_list (d2 img) T (T - tile_overlap)))"
  shows "0 \<le> scale"
    and "d0 E = d0 img \<and> d1 E = nat (int (d1 img) * scale) \<and> d2 E = nat (int (d2 img) * scale)"
    and "d0 W = d0 img \<and> d1 W = nat (int (d1 img) * scale) \<and> d2 W = nat (int (d2 img) * scale)"
    and "tr = Zeros (d0 Z) (d1 Z) (d2 Z) # Zeros (d0 Z) (d1 Z) (d2 Z)
              # map (\<lambda>origin. Invoke (in_patch img T (fst origin) (snd origin))) ts"
    and "el E k i j = foldl fadd (Fin 0)
           (map (\<lambda>origin. tile_sample img model T scale Z origin k i j)
              (filter (\<lambda>origin. in_region Z T scale origin i j) ts))"
    and "el W k i j = Fin (of_nat (length (filter (\<lambda>origin. in_region Z T scale origin i j) ts)))"
proof -
  show sf: "0 \<le> scale"
  proof (rule ccontr)
    assume "\<not> 0 \<le> scale"
    then have "isl (snd (accumulate img model tile tile_overlap window_size scale))"
      using accumulate_negative_scale [OF T ov, of scale model window_size] by simp
    with acc show False by simp
  qed
  from acc accumulate_valid [OF T ov ws sf, of model]
  obtain tr' where run: "run_tiles img model T scale ts (Z, Z) = (tr', Inr (E, W))"
    and tr: "tr = Zeros (d0 Z) (d1 Z) (d2 Z) # Zeros (d0 Z) (d1 Z) (d2 Z) # tr'"
    by (auto simp: Z_def ts_def zeros_def split: prod.splits)
  note r = run_tiles_Inr [OF run, of k i j]
  show "d0 E = d0 img \<and> d1 E = nat (int (d1 img) * scale) \<and> d2 E = nat (int (d2 img) * scale)"
    using r by (simp add: Z_def zeros_def)
  show "d0 W = d0 img \<and> d1 W = nat (int (d1 img) * scale) \<and> d2 W = nat (int (d2 img) * scale)"
    using r by (simp add: Z_def zeros_def)
  show "tr = Zeros (d0 Z) (d1 Z) (d2 Z) # Zeros (d0 Z) (d1 Z) (d2 Z)
              # map (\<lambda>origin. Invoke (in_patch img T (fst origin) (snd origin))) ts"
    using r tr by simp
  have z: "el Z k i j = Fin 0" by (simp add: Z_def zeros_def)
  show "el E k i j = foldl fadd (Fin 0)
           (map (\<lambda>origin. tile_sample img model T scale Z origin k i j)
              (filter (\<lambda>origin. in_region Z T scale origin i j) ts))"
    using r by (simp add: z)
  show "el W k i j = Fin (of_nat (length (filter (\<lambda>origin. in_region Z T scale origin i j) ts)))"
    using r by (simp add: z foldl_fadd_ones)
qed

lemma accumulate_succeeds:
  assumes T: "T = min tile (min (int (d1 img)) (int (d2 img)))"
    and ov: "0 \<le> tile_overlap" "tile_overlap < T"
    and ws: "window_size dvd T"
    and sf: "0 \<le> scale"
    and m: "well_shaped model scale"
  shows "\<exists>tr E W. accumulate img model tile tile_overlap window_size scale = (tr, Inr (E, W))"
proof -
  let ?h = "nat (int (d1 img) * scale)" and ?w = "nat (int (d2 img) * scale)"
  let ?Z = "zeros (d0 img) ?h ?w"
  let ?hs = "projr (idx_list (d1 img) T (T - tile_overlap))"
  let ?wl = "projr (idx_list (d2 img) T (T - tile_overlap))"
  have s: "0 < T - tile_overlap" using ov by simp
  have T0: "0 \<le> T" "T \<le> int (d1 img)" "T \<le> int (d2 img)" using T ov by simp_all
  have "\<exists>P. model (in_patch img T (fst origin) (snd origin)) = Inr P
      \<and> bcast_ok (d0 img)
           (norm_index ?h ((fst origin + T) * scale) - norm_index ?h (fst origin * scale))
           (norm_index ?w ((snd origin + T) * scale) - norm_index ?w (snd origin * scale)) P"
    if "origin \<in> set (List.product ?hs ?wl)" for origin
  proof -
    obtain r c where o: "origin = (r, c)" by (cases origin)
    from that o have rc: "r \<in> set ?hs" "c \<in> set ?wl" by simp_all
    have br: "0 \<le> r \<and> r + T \<le> int (d1 img)"
      using idx_list_bounds [OF s T0(2) rc(1)] .
    have bc: "0 \<le> c \<and> c + T \<le> int (d2 img)"
      using idx_list_bounds [OF s T0(3) rc(2)] .
    from m obtain P where P: "model (in_patch img T r c) = Inr P"
      and dP: "d0 P = d0 (in_patch img T r c)"
        "int (d1 P) = int (d1 (in_patch img T r c)) * scale"
        "int (d2 P) = int (d2 (in_patch img T r c)) * scale"
      unfolding well_shaped_def by blast
    have ext: "d0 (in_patch img T r c) = d0 img" "d1 (in_patch img T r c) = nat T"
      "d2 (in_patch img T r c) = nat T"
      using in_patch_extent [of r T img c] br bc T0 by simp_all
    have "d1 P = nat (T * scale)" "d2 P = nat (T * scale)"
      using dP ext T0 by simp_all
    then have "bcast_ok (d0 img)
           (norm_index ?h ((r + T) * scale) - norm_index ?h (r * scale))
           (norm_index ?w ((c + T) * scale) - norm_index ?w (c * scale)) P"
      using br bc T0 sf dP(1) ext(1) by (simp add: span_extent bcast_ok_def)
    with P o show ?thesis by auto
  qed
  then have "\<exists>tr E' W'. run_tiles img model T scale (List.product ?hs ?wl) (?Z, ?Z)
                = (tr, Inr (E', W'))"
    by (intro run_tiles_succeeds [where c = "d0 img" and h = ?h and w = ?w])
       (simp_all add: zeros_def)
  then show ?thesis
    unfolding accumulate_valid [OF T ov ws sf] by auto
qed

section \<open>Full coverage\<close>

lemma filter_nonempty: "x \<in> set xs \<Longrightarrow> P x \<Longrightarrow> 0 < length (filter P xs)"
  by (induction xs) auto

lemma buffer_position:
  assumes "0 \<le> sf" "i < nat (int n * sf)"
  shows "0 < sf" and "nat (int i div sf) < n"
proof -
  from assms show sf: "0 < sf" by (cases "sf = 0") simp_all
  have "int i < int n * sf" using assms by simp
  have "int i div sf < int n"
  proof (rule ccontr)
    assume "\<not> int i div sf < int n"
    then have "int n * sf \<le> (int i div sf) * sf"
      using sf by (intro scaled_le) simp_all
    moreover have "int i = (int i div sf) * sf + int i mod sf"
      by (simp only: div_mult_mod_eq)
    moreover have "0 \<le> int i mod sf" using sf by simp
    ultimately show False using \<open>int i < int n * sf\<close> by linarith
  qed
  moreover have "0 \<le> int i div sf" using sf by (simp add: pos_imp_zdiv_nonneg_iff)
  ultimately show "nat (int i div sf) < n" by simp
qed

text \<open>
  Claim C1. Let the tile size \<open>T\<close> be the requested one clamped to the height and
  width of the padded image, with \<open>0 \<le> overlap < T\<close> and \<open>T\<close> a multiple of the
  window size. Then both origin lists are computed without error, every position of
  the image lies in the rectangle of some scheduled tile, and whenever the
  accumulation returns its two buffers, the weight buffer has the image's channels
  and \<open>scale\<close> times its rows and columns and every entry of it is strictly positive.
  With a model that accepts every patch and scales it by \<open>scale\<close>, the accumulation
  does return.
\<close>

theorem full_coverage:
  assumes T: "T = min tile (min (int (d1 img)) (int (d2 img)))"
    and ov: "0 \<le> tile_overlap" "tile_overlap < T"
    and ws: "window_size dvd T"
  shows "\<exists>hs wl. idx_list (d1 img) T (T - tile_overlap) = Inr hs
      \<and> idx_list (d2 img) T (T - tile_overlap) = Inr wl
      \<and> (\<forall>i j. i < d1 img \<and> j < d2 img \<longrightarrow>
            (\<exists>r \<in> set hs. \<exists>c \<in> set wl.
                r \<le> int i \<and> int i < r + T \<and> c \<le> int j \<and> int j < c + T))
      \<and> (\<forall>tr E W. accumulate img model tile tile_overlap window_size scale = (tr, Inr (E, W))
            \<longrightarrow> d0 W = d0 img \<and> int (d1 W) = int (d1 img) * scale
                \<and> int (d2 W) = int (d2 img) * scale
                \<and> (\<forall>k i j. i < d1 W \<and> j < d2 W \<longrightarrow> (\<exists>q. el W k i j = Fin q \<and> 0 < q)))
      \<and> (well_shaped model scale \<and> 0 \<le> scale \<longrightarrow>
            (\<exists>tr E W. accumulate img model tile tile_overlap window_size scale
                        = (tr, Inr (E, W))))"
proof -
  let ?hs = "projr (idx_list (d1 img) T (T - tile_overlap))"
  let ?wl = "projr (idx_list (d2 img) T (T - tile_overlap))"
  have s: "0 < T - tile_overlap" using ov by simp
  have T0: "0 \<le> T" "T \<le> int (d1 img)" "T \<le> int (d2 img)" using T ov by simp_all
  have 1: "idx_list (d1 img) T (T - tile_overlap) = Inr ?hs"
    and 2: "idx_list (d2 img) T (T - tile_overlap) = Inr ?wl"
    using s by (rule idx_list_Inr)+
  have cov: "\<exists>r \<in> set ?hs. \<exists>c \<in> set ?wl.
                r \<le> int i \<and> int i < r + T \<and> c \<le> int j \<and> int j < c + T"
    if "i < d1 img" "j < d2 img" for i j
    using idx_list_cover [OF ov T0(2) that(1)] idx_list_cover [OF ov T0(3) that(2)] by blast
  have 4: "d0 W = d0 img \<and> int (d1 W) = int (d1 img) * scale
         \<and> int (d2 W) = int (d2 img) * scale
         \<and> (\<forall>k i j. i < d1 W \<and> j < d2 W \<longrightarrow> (\<exists>q. el W k i j = Fin q \<and> 0 < q))"
    if acc: "accumulate img model tile tile_overlap window_size scale = (tr, Inr (E, W))"
    for tr E W
  proof -
    let ?Z = "zeros (d0 img) (nat (int (d1 img) * scale)) (nat (int (d2 img) * scale))"
    note a = accumulate_Inr_valid [OF T ov ws acc]
    have sf: "0 \<le> scale" by (rule a(1))
    have dW: "d0 W = d0 img" "d1 W = nat (int (d1 img) * scale)"
      "d2 W = nat (int (d2 img) * scale)"
      using a(3) by simp_all
    have pos: "\<exists>q. el W k i j = Fin q \<and> 0 < q" if ij: "i < d1 W" "j < d2 W" for k i j
    proof -
      from ij have i: "i < nat (int (d1 img) * scale)" and j: "j < nat (int (d2 img) * scale)"
        by (simp_all add: dW)
      note bi = buffer_position [OF sf i] and bj = buffer_position [OF sf j]
      from cov [OF bi(2) bj(2)] obtain r c where rc: "r \<in> set ?hs" "c \<in> set ?wl"
        and r: "r \<le> int i div scale" "int i div scale < r + T"
        and c: "c \<le> int j div scale" "int j div scale < c + T"
        using bi(1) by (auto simp: pos_imp_zdiv_nonneg_iff)
      have br: "0 \<le> r \<and> r + T \<le> int (d1 img)"
        using idx_list_bounds [OF s T0(2) rc(1)] .
      have bc: "0 \<le> c \<and> c + T \<le> int (d2 img)"
        using idx_list_bounds [OF s T0(3) rc(2)] .
      have "in_region ?Z T scale (r, c) i j"
        using scaled_position [OF bi(1) r] scaled_position [OF bi(1) c] br bc sf T0(1)
        by (subst in_region_valid [where h = "d1 img" and w = "d2 img"])
           (simp_all add: zeros_def)
      moreover have "(r, c) \<in> set (List.product ?hs ?wl)" using rc by simp
      ultimately have "0 < length (filter (\<lambda>origin. in_region ?Z T scale origin i j)
                                    (List.product ?hs ?wl))"
        by (rule filter_nonempty [rotated])
      then show ?thesis
        using a(6) [of k i j] by simp
    qed
    show ?thesis
      using dW pos sf by simp
  qed
  have 5: "\<exists>tr E W. accumulate img model tile tile_overlap window_size scale
                        = (tr, Inr (E, W))"
    if "well_shaped model scale" "0 \<le> scale"
    using accumulate_succeeds [OF T ov ws that(2) that(1)] .
  show ?thesis
    using 1 2 cov 4 5 by (intro exI [of _ ?hs] exI [of _ ?wl]) blast
qed

text \<open>
  An instance: a padded image of 16 by 16 with 3 channels, tile size 8, overlap 2,
  window size 8 and scale 4; the origins are 0, 6 and 8 on both axes.
\<close>

theorem full_coverage_witness:
  "idx_list 16 8 6 = Inr [0, 6, 8]
   \<and> (\<exists>tr E W. accumulate (zeros 3 16 16) (nearest 4) 8 2 8 4 = (tr, Inr (E, W))
         \<and> d0 W = 3 \<and> d1 W = 64 \<and> d2 W = 64
         \<and> (\<exists>q. el W 0 0 0 = Fin q \<and> 0 < q)
         \<and> (\<exists>q. el W 2 30 63 = Fin q \<and> 0 < q))"
proof -
  have T: "(8 :: int) = min 8 (min (int (d1 (zeros 3 16 16))) (int (d2 (zeros 3 16 16))))"
    by (simp add: zeros_def)
  have m: "well_shaped (nearest 4) 4"
    by (simp add: well_shaped_def nearest_def)
  have l: "idx_list 16 8 6 = Inr [0, 6, 8]"
    by (simp add: idx_list_def py_range_def upt_conv_Cons)
  from full_coverage [OF T, of 2 8 "nearest 4" 4] m
  obtain tr E W where acc: "accumulate (zeros 3 16 16) (nearest 4) 8 2 8 4 = (tr, Inr (E, W))"
    by auto
  from full_coverage [OF T, of 2 8 "nearest 4" 4] acc
  have "d0 W = d0 (zeros 3 16 16) \<and> int (d1 W) = int (d1 (zeros 3 16 16)) * 4
                \<and> int (d2 W) = int (d2 (zeros 3 16 16)) * 4
                \<and> (\<forall>k i j. i < d1 W \<and> j < d2 W \<longrightarrow> (\<exists>q. el W k i j = Fin q \<and> 0 < q))"
    by auto
  then have "d0 W = 3 \<and> d1 W = 64 \<and> d2 W = 64
         \<and> (\<exists>q. el W 0 0 0 = Fin q \<and> 0 < q) \<and> (\<exists>q. el W 2 30 63 = Fin q \<and> 0 < q)"
    by (simp add: zeros_def)
  with acc l show ?thesis by blast
qed

section \<open>The final division\<close>

lemma accumulate_Inr:
  assumes "accumulate img model tile tile_overlap window_size scale = (tr, Inr (E, W))"
  shows "\<exists>ts tr'. run_tiles img model (min tile (min (int (d1 img)) (int (d2 img)))) scale ts
            (zeros (d0 img) (nat (int (d1 img) * scale)) (nat (int (d2 img) * scale)),
             zeros (d0 img) (nat (int (d1 img) * scale)) (nat (int (d2 img) * scale)))
          = (tr', Inr (E, W))"
  using assms
  by (auto simp: accumulate_def Let_def zeros_def split: if_splits sum.splits prod.splits)

lemma length_filter_0: "length (filter P xs) = 0 \<Longrightarrow> filter P xs = []"
  by simp

text \<open>
  Claim C8 says that a zero weight makes the final division fail with an error. With
  a padded image of 16 by 16, tile size 8 and overlap 9, only the tile at origin
  (8, 8) is run; at position (0, 0, 0) the weight and the sum are zero, and
  \<open>inference\<close> returns a tensor whose sample there is NaN.
\<close>

theorem zero_weight_no_error:
  "\<not> isl (snd (accumulate (zeros 3 16 16) (nearest 4) 8 9 8 4))
   \<and> el (snd (projr (snd (accumulate (zeros 3 16 16) (nearest 4) 8 9 8 4)))) 0 0 0 = Fin 0
   \<and> el (fst (projr (snd (accumulate (zeros 3 16 16) (nearest 4) 8 9 8 4)))) 0 0 0 = Fin 0
   \<and> \<not> isl (snd (inference (zeros 3 16 16) (nearest 4) 8 9 8 4))
   \<and> el (projr (snd (inference (zeros 3 16 16) (nearest 4) 8 9 8 4))) 0 0 0 = NaN"
  by (simp add: inference_def accumulate_def zeros_def idx_list_def py_range_def tile_step_def
      in_patch_def nearest_def add_region_def bcast_ok_def expand_def ones_like_def
      slice1_def slice2_def norm_index_def div_inplace_def Let_def)

text \<open>
  Claim C8, amended. If the accumulation returns its buffers and the weight at a
  position of the buffer is zero, then the sum at that position is zero as well, the
  final division raises nothing, and \<open>inference\<close> returns a tensor whose sample at
  that position is NaN.
\<close>

theorem zero_weight_gives_nan:
  assumes acc: "accumulate img model tile tile_overlap window_size scale = (tr, Inr (E, W))"
    and pos: "k < d0 W" "i < d1 W" "j < d2 W"
    and zero: "el W k i j = Fin 0"
  shows "el E k i j = Fin 0
       \<and> inference img model tile tile_overlap window_size scale = (tr, Inr (div_inplace E W))
       \<and> el (div_inplace E W) k i j = NaN"
proof -
  let ?T = "min tile (min (int (d1 img)) (int (d2 img)))"
  let ?Z = "zeros (d0 img) (nat (int (d1 img) * scale)) (nat (int (d2 img) * scale))"
  from accumulate_Inr [OF acc] obtain ts tr'
    where run: "run_tiles img model ?T scale ts (?Z, ?Z) = (tr', Inr (E, W))"
    by blast
  note r = run_tiles_Inr [OF run, of k i j]
  have z: "el ?Z k i j = Fin 0" by (simp add: zeros_def)
  from r zero have "Fin (of_nat (length (filter (\<lambda>origin. in_region ?Z ?T scale origin i j) ts)))
      = Fin 0"
    by (simp add: z foldl_fadd_ones)
  then have "filter (\<lambda>origin. in_region ?Z ?T scale origin i j) ts = []"
    by simp
  with r have E: "el E k i j = Fin 0" by (simp add: z)
  have "el (div_inplace E W) k i j = NaN"
    by (simp add: div_inplace_def E zero)
  with E inference_Inr [OF acc] show ?thesis by simp
qed

text \<open>An instance: the run of the example above.\<close>

theorem zero_weight_gives_nan_witness:
  "\<exists>tr E W. accumulate (zeros 3 16 16) (nearest 4) 8 9 8 4 = (tr, Inr (E, W))
     \<and> 0 < d0 W \<and> 0 < d1 W \<and> 0 < d2 W \<and> el W 0 0 0 = Fin 0
     \<and> inference (zeros 3 16 16) (nearest 4) 8 9 8 4 = (tr, Inr (div_inplace E W))
     \<and> el (div_inplace E W) 0 0 0 = NaN"
proof -
  obtain tr E W where acc: "accumulate (zeros 3 16 16) (nearest 4) 8 9 8 4 = (tr, Inr (E, W))"
    by (simp add: accumulate_def zeros_def idx_list_def py_range_def tile_step_def
      in_patch_def nearest_def add_region_def bcast_ok_def expand_def ones_like_def
      slice1_def slice2_def norm_index_def Let_def)
  then have W: "W = snd (projr (snd (accumulate (zeros 3 16 16) (nearest 4) 8 9 8 4)))"
    by simp
  have d: "0 < d0 W" "0 < d1 W" "0 < d2 W" "el W 0 0 0 = Fin 0"
    unfolding W
    by (simp_all add: accumulate_def zeros_def idx_list_def py_range_def tile_step_def
      in_patch_def nearest_def add_region_def bcast_ok_def expand_def ones_like_def
      slice1_def slice2_def norm_index_def Let_def)
  show ?thesis
    using zero_weight_gives_nan [OF acc d] acc d by blast
qed

section \<open>Channels\<close>

lemma tile_step_trace:
  "fst (tile_step img model tile sf origin bufs) =
     [Invoke (in_patch img tile (fst origin) (snd origin))]"
  by (cases origin; cases bufs) (simp add: tile_step_def split: sum.splits)

lemma run_tiles_trace:
  "\<exists>n. fst (run_tiles img model tile sf ts bufs) =
          map (\<lambda>origin. Invoke (in_patch img tile (fst origin) (snd origin))) (take n ts)
       \<and> (ts \<noteq> [] \<longrightarrow> 0 < n)"
proof (induction ts arbitrary: bufs)
  case Nil
  then show ?case by simp
next
  case (Cons t ts)
  obtain ev r where step: "tile_step img model tile sf t bufs = (ev, r)"
    by (cases "tile_step img model tile sf t bufs")
  with tile_step_trace [of img model tile sf t bufs]
  have ev: "ev = [Invoke (in_patch img tile (fst t) (snd t))]" by simp
  show ?case
  proof (cases r)
    case (Inl e)
    with step ev have "fst (run_tiles img model tile sf (t # ts) bufs) =
        map (\<lambda>origin. Invoke (in_patch img tile (fst origin) (snd origin))) (take 1 (t # ts))"
      by simp
    then show ?thesis by (intro exI [of _ 1]) simp
  next
    case (Inr bufs')
    from Cons.IH [of bufs'] obtain n where
      n: "fst (run_tiles img model tile sf ts bufs') =
          map (\<lambda>origin. Invoke (in_patch img tile (fst origin) (snd origin))) (take n ts)"
      by blast
    with step ev Inr have "fst (run_tiles img model tile sf (t # ts) bufs) =
        map (\<lambda>origin. Invoke (in_patch img tile (fst origin) (snd origin)))
          (take (Suc n) (t # ts))"
      by (simp add: split_beta)
    then show ?thesis by (intro exI [of _ "Suc n"]) simp
  qed
qed

lemma calls_Invoke [simp]: "calls (map (\<lambda>x. Invoke (f x)) xs) = map f xs"
  by (induction xs) simp_all

lemma in_patch_d0 [simp]: "d0 (in_patch img tile r c) = d0 img"
  by (simp add: in_patch_def slice1_def slice2_def Let_def)

lemma upscale_trace:
  "prepare a window_size = Inr padded \<Longrightarrow>
   fst (upscale nan_cast (Nd3 a) model tile tile_overlap window_size scale) =
   fst (accumulate padded model tile tile_overlap window_size scale)"
  by (simp add: upscale_def inference_def Let_def split: prod.splits sum.splits)

lemma prepare_d0: "prepare a window_size = Inr padded \<Longrightarrow> d0 padded = d2 a"
  by (auto simp: prepare_def Let_def to_tensor_def split: sum.splits)

lemma idx_list_nonempty: "0 < stride \<Longrightarrow> projr (idx_list n tile stride) \<noteq> []"
  by (simp add: idx_list_up)

lemma product_nonempty: "xs \<noteq> [] \<Longrightarrow> ys \<noteq> [] \<Longrightarrow> List.product xs ys \<noteq> []"
  by (cases xs; cases ys) simp_all

text \<open>
  Claim C9 says that an image whose channel count is not 3 makes \<open>upscale\<close> fail
  before the model is called. An image of 8 by 8 pixels with 4 channels is padded to
  16 by 16, the model is called once, on a patch of 4 channels, and \<open>upscale\<close> returns
  an array of 32 by 32 pixels.
\<close>

theorem four_channels_accepted:
  "map_sum id shape (snd (upscale 0 (Nd3 (solid 8 8 4 0)) (nearest 4) 16 8 8 4))
     = Inr [32, 32, 3]
   \<and> map d0 (calls (fst (upscale 0 (Nd3 (solid 8 8 4 0)) (nearest 4) 16 8 8 4))) = [4]"
  by (simp add: upscale_def prepare_def pad_amount_def solid_def to_tensor_def pad_def
      slice1_def slice2_def cat1_def cat2_def flip1_def flip2_def norm_index_def Let_def
      inference_def accumulate_def zeros_def idx_list_def py_range_def tile_step_def
      in_patch_def nearest_def add_region_def bcast_ok_def expand_def ones_like_def
      squeeze_def reorder_def div_inplace_def)

text \<open>
  Claim C9, amended. \<open>upscale\<close> does not check the channel count. An image array
  without a channel axis (rank below 3) fails at once with IndexError, before any
  buffer is allocated or the model is called. An image with a channel axis is taken
  with any number of channels: under a valid configuration (the clamped tile size a
  multiple of the window size, \<open>0 \<le> overlap < tile\<close>, a scale that is not
  negative) the model is called, and every patch it receives has the channels of the
  image.
\<close>

theorem channel_count_unchecked:
  "(ndim img < 3 \<longrightarrow>
      upscale nan_cast img model tile tile_overlap window_size scale = ([], Inl IndexError))
   \<and> (\<forall>a padded T. img = Nd3 a \<and> prepare a window_size = Inr padded
         \<and> T = min tile (min (int (d1 padded)) (int (d2 padded)))
         \<and> 0 \<le> tile_overlap \<and> tile_overlap < T \<and> window_size dvd T \<and> 0 \<le> scale
       \<longrightarrow> calls (fst (upscale nan_cast img model tile tile_overlap window_size scale)) \<noteq> []
         \<and> (\<forall>p \<in> set (calls (fst (upscale nan_cast img model tile tile_overlap
                                        window_size scale))). d0 p = d2 a))"
proof -
  have 1: "upscale nan_cast img model tile tile_overlap window_size scale
             = ([], Inl IndexError)" if "ndim img < 3"
    using that by (cases img) (simp_all add: upscale_def)
  have 2: "calls (fst (upscale nan_cast img model tile tile_overlap window_size scale)) \<noteq> []
         \<and> (\<forall>p \<in> set (calls (fst (upscale nan_cast img model tile tile_overlap
                                        window_size scale))). d0 p = d2 a)"
    if img: "img = Nd3 a" and p: "prepare a window_size = Inr padded"
      and T: "T = min tile (min (int (d1 padded)) (int (d2 padded)))"
      and ov: "0 \<le> tile_overlap" "tile_overlap < T"
      and ws: "window_size dvd T" and sf: "0 \<le> scale"
    for a padded T
  proof -
    let ?ts = "List.product (projr (idx_list (d1 padded) T (T - tile_overlap)))
                           (projr (idx_list (d2 padded) T (T - tile_overlap)))"
    let ?Z = "zeros (d0 padded) (nat (int (d1 padded) * scale)) (nat (int (d2 padded) * scale))"
    have s: "0 < T - tile_overlap" using ov by simp
    have ne: "?ts \<noteq> []"
      by (intro product_nonempty idx_list_nonempty s)
    from run_tiles_trace [of padded model T scale ?ts "(?Z, ?Z)"] ne
    obtain n where n: "fst (run_tiles padded model T scale ?ts (?Z, ?Z)) =
          map (\<lambda>origin. Invoke (in_patch padded T (fst origin) (snd origin))) (take n ?ts)"
      and n0: "0 < n"
      by blast
    have "calls (fst (accumulate padded model tile tile_overlap window_size scale)) =
          map (\<lambda>origin. in_patch padded T (fst origin) (snd origin)) (take n ?ts)"
      unfolding accumulate_valid [OF T ov ws sf]
      using n by (simp add: split_beta)
    then have c: "calls (fst (upscale nan_cast img model tile tile_overlap window_size scale)) =
          map (\<lambda>origin. in_patch padded T (fst origin) (snd origin)) (take n ?ts)"
      by (simp add: img upscale_trace [OF p])
    have "take n ?ts \<noteq> []" using ne n0 by (cases ?ts) simp_all
    then show ?thesis
      unfolding c using prepare_d0 [OF p] by auto
  qed
  show ?thesis using 1 2 by blast
qed

text \<open>An instance of each part: a grey image, and the image of 4 channels above.\<close>

theorem channel_count_unchecked_witness:
  "upscale 0 (grey 8 8 0) (nearest 4) 16 8 8 4 = ([], Inl IndexError)
   \<and> calls (fst (upscale 0 (Nd3 (solid 8 8 4 0)) (nearest 4) 16 8 8 4)) \<noteq> []
   \<and> set (map d0 (calls (fst (upscale 0 (Nd3 (solid 8 8 4 0)) (nearest 4) 16 8 8 4)))) = {4}"
proof -
  let ?padded = "pad (to_tensor (solid 8 8 4 0)) 8 8"
  let ?calls = "calls (fst (upscale 0 (Nd3 (solid 8 8 4 0)) (nearest 4) 16 8 8 4))"
  have p: "prepare (solid 8 8 4 0) 8 = Inr ?padded"
    by (simp add: prepare_pos solid_def)
  have d: "d1 ?padded = 16" "d2 ?padded = 16"
    by (simp_all add: pad_d1 pad_d2 to_tensor_def solid_def norm_index_def)
  have T: "(16 :: int) = min 16 (min (int (d1 ?padded)) (int (d2 ?padded)))"
    by (simp add: d)
  have g: "ndim (grey 8 8 0) < 3" by (simp add: grey_def)
  have c: "d2 (solid 8 8 4 0) = 4" by (simp add: solid_def)
  have 1: "upscale 0 (grey 8 8 0) (nearest 4) 16 8 8 4 = ([], Inl IndexError)"
    using channel_count_unchecked [of "grey 8 8 0" 0 "nearest 4" 16 8 8 4] g by simp
  have 2: "?calls \<noteq> [] \<and> (\<forall>p \<in> set ?calls. d0 p = 4)"
    using channel_count_unchecked [of "Nd3 (solid 8 8 4 0)" 0 "nearest 4" 16 8 8 4] p T c d
    by simp
  then obtain x xs where "?calls = x # xs" by (cases ?calls) simp_all
  with 2 have "set (map d0 ?calls) = {4}" by auto
  with 1 2 show ?thesis by simp
qed

section \<open>The shape of the result\<close>

lemma upscale_Inr_shape:
  assumes p: "prepare a window_size = Inr padded"
    and inf: "inference padded model tile tile_overlap window_size scale = (tr, Inr output)"
    and c: "3 \<le> d0 output"
    and sf: "0 \<le> scale"
    and h: "int (d0 a) * scale \<le> int (d1 output)" "nat (int (d0 a) * scale) \<noteq> 1"
    and w: "int (d1 a) * scale \<le> int (d2 output)" "nat (int (d1 a) * scale) \<noteq> 1"
  shows "\<exists>res. upscale nan_cast (Nd3 a) model tile tile_overlap window_size scale = (tr, Inr res)
           \<and> shape res = [nat (int (d0 a) * scale), nat (int (d1 a) * scale), 3]"
proof -
  let ?crop = "slice2 0 (int (d1 a) * scale) (slice1 0 (int (d0 a) * scale) output)"
  have h0: "0 \<le> int (d0 a) * scale" and w0: "0 \<le> int (d1 a) * scale" using sf by simp_all
  have d: "d0 ?crop = d0 output" "d1 ?crop = nat (int (d0 a) * scale)"
    "d2 ?crop = nat (int (d1 a) * scale)"
    using h w h0 w0 by (simp_all add: slice1_def slice2_def Let_def norm_index_within)
  have sq: "squeeze ?crop = Nd3 ?crop"
    using c h(2) w(2) unfolding squeeze_def d by simp
  have "reorder (map_nd clamp01 (Nd3 ?crop)) =
          Inr (Nd3 (Arr3 (d1 ?crop) (d2 ?crop) 3 (\<lambda>i j k. clamp01 (el ?crop (2 - k) i j))))"
    using c by (simp add: reorder_def d)
  then show ?thesis
    using p inf by (simp add: upscale_def Let_def sq d)
qed

lemma well_shaped_nearest: "well_shaped (nearest sf) (int sf)"
  by (simp add: well_shaped_def nearest_def)

text \<open>
  Claim C4. For an image of height 130 and width 130 with 3 channels, window size 8,
  tile size 64, overlap 8, scale 4 and a model that scales every patch by 4: the
  padding amount is 6 on both axes and the padded tensor is 136 by 136 with 3
  channels; the stride is 56 and both origin lists are 0, 56, 72; the model is
  called on the 9 tiles of their cross product, in row-major order; and \<open>upscale\<close>
  returns an array of shape 520 by 520 by 3.
\<close>

theorem concrete_scenario:
  assumes a: "d0 a = 130" "d1 a = 130" "d2 a = 3"
    and m: "well_shaped model 4"
  shows "pad_amount 130 8 = Inr 6
     \<and> (\<exists>padded. prepare a 8 = Inr padded
           \<and> d0 padded = 3 \<and> d1 padded = 136 \<and> d2 padded = 136
           \<and> min 64 (min (int (d1 padded)) (int (d2 padded))) - 8 = 56
           \<and> idx_list (d1 padded) 64 56 = Inr [0, 56, 72]
           \<and> idx_list (d2 padded) 64 56 = Inr [0, 56, 72]
           \<and> (\<exists>tr res. upscale nan_cast (Nd3 a) model 64 8 8 4 = (tr, Inr res)
                 \<and> calls tr = map (\<lambda>origin. in_patch padded 64 (fst origin) (snd origin))
                                (List.product [0, 56, 72] [0, 56, 72])
                 \<and> length (calls tr) = 9
                 \<and> shape res = [520, 520, 3]))"
proof -
  let ?padded = "pad (to_tensor a) 6 6"
  have pa: "pad_amount 130 8 = Inr 6" by (simp add: pad_amount_def)
  have p: "prepare a 8 = Inr ?padded"
    by (simp add: prepare_pos a)
  have d: "d0 ?padded = 3" "d1 ?padded = 136" "d2 ?padded = 136"
    by (simp_all add: pad_d1 pad_d2 to_tensor_def a norm_index_def)
  have c3: "d0 (to_tensor a) = 3" by (simp add: to_tensor_def a)
  have T: "(64 :: int) = min 64 (min (int (d1 ?padded)) (int (d2 ?padded)))"
    by (simp add: d)
  have l: "idx_list 136 64 56 = Inr [0, 56, 72]"
    by (simp add: idx_list_def py_range_def upt_conv_Cons)
  from accumulate_succeeds [OF T, of 8 8 4 model] m
  obtain tr E W where acc: "accumulate ?padded model 64 8 8 4 = (tr, Inr (E, W))"
    by auto
  note v = accumulate_Inr_valid [OF T _ _ _ acc]
  have dE: "d0 E = 3" "d1 E = 544" "d2 E = 544"
    using v(2) by (simp_all add: d c3)
  have tr: "tr = Zeros 3 544 544 # Zeros 3 544 544
              # map (\<lambda>origin. Invoke (in_patch ?padded 64 (fst origin) (snd origin)))
                  (List.product [0, 56, 72] [0, 56, 72])"
    using v(4) by (simp add: d c3 l zeros_def)
  have calls: "calls tr = map (\<lambda>origin. in_patch ?padded 64 (fst origin) (snd origin))
                  (List.product [0, 56, 72] [0, 56, 72])"
    unfolding tr by (simp only: calls.simps calls_Invoke)
  have inf: "inference ?padded model 64 8 8 4 = (tr, Inr (div_inplace E W))"
    using acc by (rule inference_Inr)
  from upscale_Inr_shape [OF p inf, of nan_cast]
  obtain res where res: "upscale nan_cast (Nd3 a) model 64 8 8 4 = (tr, Inr res)"
    and sh: "shape res = [520, 520, 3]"
    by (auto simp: div_inplace_def dE a)
  have n: "length (calls tr) = 9" unfolding calls by simp
  show ?thesis
    using pa p d l res sh calls n by (intro conjI exI [of _ ?padded] exI [of _ tr] exI [of _ res]) simp_all
qed

text \<open>An instance: an image of one colour and the model that repeats samples.\<close>

theorem concrete_scenario_witness:
  "\<exists>tr res. upscale 0 (Nd3 (solid 130 130 3 200)) (nearest 4) 64 8 8 4 = (tr, Inr res)
      \<and> length (calls tr) = 9 \<and> shape res = [520, 520, 3]"
proof -
  have "d0 (solid 130 130 3 200) = 130" "d1 (solid 130 130 3 200) = 130"
    "d2 (solid 130 130 3 200) = 3"
    by (simp_all add: solid_def)
  moreover have "well_shaped (nearest 4) 4"
    using well_shaped_nearest [of 4] by simp
  ultimately show ?thesis
    using concrete_scenario [of "solid 130 130 3 200" "nearest 4" 0] by blast
qed

section \<open>Tiles that do not overlap\<close>

lemma filter_singleton:
  assumes "distinct xs" "x \<in> set xs" "P x" "\<And>y. y \<in> set xs \<Longrightarrow> P y \<Longrightarrow> y = x"
  shows "filter P xs = [x]"
  using assms
proof (induction xs)
  case Nil
  then show ?case by simp
next
  case (Cons a xs)
  have d: "distinct xs" "a \<notin> set xs" using Cons.prems(1) by simp_all
  have u: "y = x" if "y \<in> set xs" "P y" for y
    using that by (intro Cons.prems(4)) simp_all
  show ?case
  proof (cases "a = x")
    case True
    have "\<not> P y" if "y \<in> set xs" for y
      using u [OF that] that d(2) True by blast
    then have "filter P xs = []" by (simp add: filter_empty_conv)
    with True Cons.prems(3) show ?thesis by simp
  next
    case False
    have "\<not> P a"
    proof
      assume "P a"
      then have "a = x" by (intro Cons.prems(4)) simp_all
      with False show False ..
    qed
    moreover have "x \<in> set xs" using Cons.prems(2) False by simp
    then have "filter P xs = [x]"
      using d(1) Cons.prems(3) u by (intro Cons.IH) blast+
    ultimately show ?thesis by simp
  qed
qed

lemma filter_product:
  "filter (\<lambda>p. P (fst p) \<and> Q (snd p)) (List.product xs ys) =
     List.product (filter P xs) (filter Q ys)"
proof (induction xs)
  case Nil
  then show ?case by simp
next
  case (Cons x xs)
  have "filter (\<lambda>p. P (fst p) \<and> Q (snd p)) (map (Pair x) ys) =
          (if P x then map (Pair x) (filter Q ys) else [])"
    by (induction ys) simp_all
  with Cons show ?case by simp
qed

lemma distinct_idx_list:
  assumes "0 < stride"
  shows "distinct (projr (idx_list n tile stride))"
proof -
  have "inj_on (\<lambda>k. int k * stride) A" for A
    using assms by (auto simp: inj_on_def)
  then have "distinct (map (\<lambda>k. int k * stride) [0..<m])" for m
    by (simp add: distinct_map)
  moreover have "int n - tile \<notin> set (map (\<lambda>k. int k * stride)
      [0..<nat ((int n - tile - 1) div stride + 1)])"
    using set_py_range_up [OF assms, of "int n - tile"] by (simp add: py_range_up [OF assms])
  ultimately show ?thesis
    by (simp add: idx_list_up [OF assms])
qed

lemma idx_list_multiples:
  assumes "0 < tile" "tile dvd int n" "r \<in> set (projr (idx_list n tile tile))"
  shows "tile dvd r"
  using assms by (auto simp: set_idx_list_up)

lemma quotient_unique:
  fixes q d x :: int
  assumes "0 < d" "q * d \<le> x" "x < (q + 1) * d"
  shows "x div d = q"
proof -
  have "x = d * q + (x - q * d)" by (simp add: algebra_simps)
  moreover have "0 \<le> x - q * d" using assms by simp
  moreover have "x - q * d < d" using assms by (simp add: algebra_simps)
  ultimately show ?thesis by (rule int_div_pos_eq)
qed

lemma axis_unique:
  assumes T: "0 < tile" "tile dvd int n" and sf: "0 < sf" and i: "i < nat (int n * sf)"
  shows "filter (\<lambda>r. in_span (nat (int n * sf)) tile sf r i) (projr (idx_list n tile tile))
           = [tile * (int i div (tile * sf))]"
proof (rule filter_singleton)
  let ?d = "tile * sf"
  let ?q = "int i div ?d"
  have d: "0 < ?d" using T sf by simp
  have n: "tile \<le> int n"
  proof -
    from i have "0 < int n" by (cases n) simp_all
    with T(2) show ?thesis by (rule zdvd_imp_le)
  qed
  have span: "in_span (nat (int n * sf)) tile sf r i \<longleftrightarrow>
               r * sf \<le> int i \<and> int i < (r + tile) * sf"
    if "r \<in> set (projr (idx_list n tile tile))" for r
    using idx_list_bounds [OF T(1) n that] T(1) sf by (intro in_span_valid) simp_all
  show "distinct (projr (idx_list n tile tile))"
    using T(1) by (rule distinct_idx_list)
  have q0: "0 \<le> ?q" using d by (simp add: pos_imp_zdiv_nonneg_iff)
  have dm: "int i = ?q * ?d + int i mod ?d" by (simp only: div_mult_mod_eq)
  have m: "0 \<le> int i mod ?d" "int i mod ?d < ?d" using d by simp_all
  obtain m' where m': "int n = tile * m'" using T(2) ..
  have il: "int i < int n * sf" using i by simp
  have "?q * ?d < m' * ?d"
    using dm m il by (simp add: m' algebra_simps)
  then have "?q < m'" using d by (simp add: mult_less_cancel_right)
  then have "?q + 1 \<le> m'" by simp
  then have "tile * (?q + 1) \<le> tile * m'" using T(1) by (intro mult_left_mono) simp_all
  then have le: "tile * ?q \<le> int n - tile" by (simp add: m' algebra_simps)
  show mem: "tile * ?q \<in> set (projr (idx_list n tile tile))"
  proof (cases "tile * ?q = int n - tile")
    case True
    then show ?thesis by (simp add: set_idx_list_up [OF T(1)])
  next
    case False
    with le have "tile * ?q < int n - tile" by simp
    moreover have "tile * ?q = int (nat ?q) * tile" using q0 by simp
    ultimately show ?thesis
      unfolding set_idx_list_up [OF T(1)] by blast
  qed
  have "(tile * ?q) * sf \<le> int i \<and> int i < (tile * ?q + tile) * sf"
    using dm m by (simp add: algebra_simps)
  then show "in_span (nat (int n * sf)) tile sf (tile * ?q) i"
    using span [OF mem] by simp
  show "r = tile * ?q"
    if r: "r \<in> set (projr (idx_list n tile tile))"
      and s: "in_span (nat (int n * sf)) tile sf r i" for r
  proof -
    from idx_list_multiples [OF T r] obtain k where k: "r = tile * k" ..
    from s span [OF r] have "r * sf \<le> int i" "int i < (r + tile) * sf" by simp_all
    then have "k * ?d \<le> int i" "int i < (k + 1) * ?d"
      by (simp_all add: k algebra_simps)
    then have "?q = k" using d by (intro quotient_unique)
    then show ?thesis by (simp add: k)
  qed
qed

lemma fadd_zero [simp]: "fadd (Fin 0) x = x"
  by (cases x) simp_all

lemma fdiv_one [simp]: "fdiv x (Fin 1) = x"
  by (cases x) simp_all

lemma tile_step_Inr_model:
  assumes "tile_step img model tile sf origin (E, W) = (ev, Inr (E', W'))"
  shows "\<exists>P. model (in_patch img tile (fst origin) (snd origin)) = Inr P
      \<and> bcast_ok (d0 E)
           (norm_index (d1 E) ((fst origin + tile) * sf) - norm_index (d1 E) (fst origin * sf))
           (norm_index (d2 E) ((snd origin + tile) * sf) - norm_index (d2 E) (snd origin * sf)) P"
  using assms
  by (cases origin) (auto simp: tile_step_def add_region_def Let_def split: sum.splits if_splits)

lemma run_tiles_Inr_model:
  assumes "run_tiles img model tile sf ts (E, W) = (tr, Inr (E', W'))"
    and "origin \<in> set ts"
  shows "\<exists>P. model (in_patch img tile (fst origin) (snd origin)) = Inr P
      \<and> bcast_ok (d0 E)
           (norm_index (d1 E) ((fst origin + tile) * sf) - norm_index (d1 E) (fst origin * sf))
           (norm_index (d2 E) ((snd origin + tile) * sf) - norm_index (d2 E) (snd origin * sf)) P"
  using assms
proof (induction ts arbitrary: E W tr)
  case Nil
  then show ?case by simp
next
  case (Cons t ts)
  from Cons.prems(1) obtain ev E1 W1 evs where
    step: "tile_step img model tile sf t (E, W) = (ev, Inr (E1, W1))"
    and rest: "run_tiles img model tile sf ts (E1, W1) = (evs, Inr (E', W'))"
    by (auto split: prod.splits sum.splits)
  note s = tile_step_Inr(1-3) [OF step]
  show ?case
  proof (cases "origin = t")
    case True
    then show ?thesis using tile_step_Inr_model [OF step] by simp
  next
    case False
    with Cons.prems(2) have "origin \<in> set ts" by simp
    from Cons.IH [OF rest this] show ?thesis by (simp add: s)
  qed
qed

lemma expand_exact:
  assumes "d0 P = c" "d1 P = h" "d2 P = w" "k < c" "i < h" "j < w"
  shows "el (expand c h w P) k i j = el P k i j"
  using assms by (auto simp: expand_def)

lemma tile_offset:
  fixes T sf :: int
  assumes "0 < T" "0 < sf"
  shows "i - nat (T * (int i div (T * sf)) * sf) = nat (int i mod (T * sf))"
proof -
  have d: "0 < T * sf" using assms by simp
  have q: "0 \<le> int i div (T * sf)" using d by (simp add: pos_imp_zdiv_nonneg_iff)
  have "int i = (int i div (T * sf)) * (T * sf) + int i mod (T * sf)"
    by (simp only: div_mult_mod_eq)
  then have e: "int i - T * (int i div (T * sf)) * sf = int i mod (T * sf)"
    by (simp add: algebra_simps)
  define x where "x = T * (int i div (T * sf)) * sf"
  have x0: "0 \<le> x" using assms q by (simp add: x_def)
  have m: "0 \<le> int i mod (T * sf)" using d by simp
  have xi: "x \<le> int i" using e m by (simp add: x_def)
  then have "nat x \<le> i" using x0 by simp
  then have "int (i - nat x) = int i - int (nat x)" by (simp add: of_nat_diff)
  also have "\<dots> = int i - x" using x0 by simp
  also have "\<dots> = int i mod (T * sf)" using e by (simp add: x_def)
  finally have "int (i - nat (T * (int i div (T * sf)) * sf)) = int i mod (T * sf)"
    by (simp add: x_def)
  then show ?thesis by linarith
qed

lemma axis_unique_pixel:
  assumes T: "0 < tile" "tile dvd int n" and i: "i < n"
  shows "filter (\<lambda>r. r \<le> int i \<and> int i < r + tile) (projr (idx_list n tile tile))
           = [tile * (int i div tile)]"
proof -
  have n: "tile \<le> int n"
  proof -
    from i have "0 < int n" by simp
    with T(2) show ?thesis by (rule zdvd_imp_le)
  qed
  have "filter (\<lambda>r. r \<le> int i \<and> int i < r + tile) (projr (idx_list n tile tile))
      = filter (\<lambda>r. in_span (nat (int n * 1)) tile 1 r i) (projr (idx_list n tile tile))"
  proof (rule filter_cong [OF refl])
    fix r assume "r \<in> set (projr (idx_list n tile tile))"
    from idx_list_bounds [OF T(1) n this] T(1)
    have "in_span (nat (int n * 1)) tile 1 r i \<longleftrightarrow>
            r * 1 \<le> int i \<and> int i < (r + tile) * 1"
      by (intro in_span_valid) simp_all
    then show "(r \<le> int i \<and> int i < r + tile) = in_span (nat (int n * 1)) tile 1 r i"
      by simp
  qed
  also have "\<dots> = [tile * (int i div (tile * 1))]"
    using T i by (intro axis_unique) simp_all
  finally show ?thesis by simp
qed

lemma region_unique:
  assumes T: "0 < tile" "tile dvd int h" "tile dvd int w" and sf: "0 < sf"
    and i: "i < nat (int h * sf)" and j: "j < nat (int w * sf)"
    and B: "d1 B = nat (int h * sf)" "d2 B = nat (int w * sf)"
  shows "filter (\<lambda>origin. in_region B tile sf origin i j)
           (List.product (projr (idx_list h tile tile)) (projr (idx_list w tile tile)))
         = [(tile * (int i div (tile * sf)), tile * (int j div (tile * sf)))]"
proof -
  have "filter (\<lambda>origin. in_region B tile sf origin i j)
           (List.product (projr (idx_list h tile tile)) (projr (idx_list w tile tile)))
      = List.product
          (filter (\<lambda>r. in_span (nat (int h * sf)) tile sf r i) (projr (idx_list h tile tile)))
          (filter (\<lambda>c. in_span (nat (int w * sf)) tile sf c j) (projr (idx_list w tile tile)))"
    unfolding in_region_def B by (rule filter_product)
  also have "\<dots> = [(tile * (int i div (tile * sf)), tile * (int j div (tile * sf)))]"
    by (simp add: axis_unique [OF T(1) T(2) sf i] axis_unique [OF T(1) T(3) sf j])
  finally show ?thesis .
qed

lemma pixel_unique:
  assumes T: "0 < tile" "tile dvd int h" "tile dvd int w"
    and i: "i < h" and j: "j < w"
  shows "filter (\<lambda>origin. (fst origin \<le> int i \<and> int i < fst origin + tile)
                        \<and> (snd origin \<le> int j \<and> int j < snd origin + tile))
           (List.product (projr (idx_list h tile tile)) (projr (idx_list w tile tile)))
         = [(tile * (int i div tile), tile * (int j div tile))]"
proof -
  have "filter (\<lambda>origin. (fst origin \<le> int i \<and> int i < fst origin + tile)
                        \<and> (snd origin \<le> int j \<and> int j < snd origin + tile))
           (List.product (projr (idx_list h tile tile)) (projr (idx_list w tile tile)))
      = List.product
          (filter (\<lambda>r. r \<le> int i \<and> int i < r + tile) (projr (idx_list h tile tile)))
          (filter (\<lambda>c. c \<le> int j \<and> int j < c + tile) (projr (idx_list w tile tile)))"
    by (rule filter_product)
  also have "\<dots> = [(tile * (int i div tile), tile * (int j div tile))]"
    by (simp add: axis_unique_pixel [OF T(1) T(2) i] axis_unique_pixel [OF T(1) T(3) j])
  finally show ?thesis .
qed

lemma span_start:
  assumes "0 \<le> sf" "0 \<le> r" "0 \<le> tile" "r + tile \<le> int n"
  shows "norm_index (nat (int n * sf)) (r * sf) = nat (r * sf)"
proof -
  have a: "0 \<le> r * sf" using assms by simp
  have "r * sf \<le> int n * sf" using assms by (intro scaled_le) simp_all
  then show ?thesis using a assms(1) by (intro norm_index_within) simp_all
qed

text \<open>
  Claim C5. Let the overlap be 0, the clamped tile size \<open>T\<close> positive and a
  multiple of the window size, and height and width of the padded image multiples of
  \<open>T\<close>. Then the origins on both axes are computed without error, and every pixel
  position lies in the rectangle of exactly one scheduled tile, the one with origin
  \<open>(T * (i div T), T * (j div T))\<close>. Whenever the accumulation returns its buffers,
  the weight buffer has the shape of the output and every entry of it is 1, \<open>inference\<close> returns \<open>E / W\<close>, and each
  sample of that result is the sample of the model's output for the tile the position
  lies in, read at the position relative to the tile's corner (through the broadcast
  of \<open>add_\<close>, which is the identity on an output of the full shape): no sample is
  the blend of two outputs.
\<close>

theorem non_overlap_identity:
  assumes T: "T = min tile (min (int (d1 img)) (int (d2 img)))"
    and T0: "0 < T"
    and dv: "T dvd int (d1 img)" "T dvd int (d2 img)"
    and ws: "window_size dvd T"
    and acc: "accumulate img model tile 0 window_size scale = (tr, Inr (E, W))"
  shows "\<exists>hs wl. idx_list (d1 img) T T = Inr hs \<and> idx_list (d2 img) T T = Inr wl
     \<and> (\<forall>i j. i < d1 img \<and> j < d2 img \<longrightarrow>
           filter (\<lambda>origin. (fst origin \<le> int i \<and> int i < fst origin + T)
                           \<and> (snd origin \<le> int j \<and> int j < snd origin + T))
             (List.product hs wl) = [(T * (int i div T), T * (int j div T))])
     \<and> d0 W = d0 img \<and> d1 W = nat (int (d1 img) * scale) \<and> d2 W = nat (int (d2 img) * scale)
     \<and> (\<forall>k i j. i < d1 W \<and> j < d2 W \<longrightarrow> el W k i j = Fin 1)
     \<and> inference img model tile 0 window_size scale = (tr, Inr (div_inplace E W))
     \<and> d0 (div_inplace E W) = d0 img
     \<and> d1 (div_inplace E W) = nat (int (d1 img) * scale)
     \<and> d2 (div_inplace E W) = nat (int (d2 img) * scale)
     \<and> (\<forall>k i j. i < d1 (div_inplace E W) \<and> j < d2 (div_inplace E W) \<longrightarrow>
           (\<exists>P. model (in_patch img T (T * (int i div (T * scale)))
                                      (T * (int j div (T * scale)))) = Inr P
              \<and> el (div_inplace E W) k i j =
                  el (expand (d0 img) (nat (T * scale)) (nat (T * scale)) P) k
                     (nat (int i mod (T * scale))) (nat (int j mod (T * scale)))
              \<and> (k < d0 img \<and> d0 P = d0 img
                   \<and> d1 P = nat (T * scale) \<and> d2 P = nat (T * scale) \<longrightarrow>
                  el (div_inplace E W) k i j =
                    el P k (nat (int i mod (T * scale))) (nat (int j mod (T * scale))))))"
proof -
  let ?hs = "projr (idx_list (d1 img) T T)" and ?wl = "projr (idx_list (d2 img) T T)"
  let ?h = "nat (int (d1 img) * scale)" and ?w = "nat (int (d2 img) * scale)"
  let ?Z = "zeros (d0 img) ?h ?w"
  let ?ts = "List.product ?hs ?wl"
  let ?out = "div_inplace E W"
  have ov: "(0 :: int) \<le> 0" "0 < T" using T0 by simp_all
  have n: "T \<le> int (d1 img)" "T \<le> int (d2 img)" using T by simp_all
  note a = accumulate_Inr_valid [OF T ov ws acc, simplified]
  have sf: "0 \<le> scale" by (rule a(1))
  have 1: "idx_list (d1 img) T T = Inr ?hs" and 2: "idx_list (d2 img) T T = Inr ?wl"
    using T0 by (rule idx_list_Inr)+
  have 3: "filter (\<lambda>origin. (fst origin \<le> int i \<and> int i < fst origin + T)
                           \<and> (snd origin \<le> int j \<and> int j < snd origin + T)) ?ts
             = [(T * (int i div T), T * (int j div T))]"
    if "i < d1 img" "j < d2 img" for i j
    using T0 dv that by (rule pixel_unique)
  from acc accumulate_valid [OF T ov ws sf, of model]
  obtain tr' where run: "run_tiles img model T scale ?ts (?Z, ?Z) = (tr', Inr (E, W))"
    by (auto split: prod.splits)
  have dE: "d0 E = d0 img" "d1 E = ?h" "d2 E = ?w" using a(2) by simp_all
  have dW: "d0 W = d0 img" "d1 W = ?h" "d2 W = ?w" using a(3) by simp_all
  have dO: "d0 ?out = d0 img" "d1 ?out = ?h" "d2 ?out = ?w"
    by (simp_all add: div_inplace_def dE)
  have pos: "el W k i j = Fin 1
      \<and> (\<exists>P. model (in_patch img T (T * (int i div (T * scale)))
                                      (T * (int j div (T * scale)))) = Inr P
              \<and> el ?out k i j =
                  el (expand (d0 img) (nat (T * scale)) (nat (T * scale)) P) k
                     (nat (int i mod (T * scale))) (nat (int j mod (T * scale)))
              \<and> (k < d0 img \<and> d0 P = d0 img
                   \<and> d1 P = nat (T * scale) \<and> d2 P = nat (T * scale) \<longrightarrow>
                  el ?out k i j =
                    el P k (nat (int i mod (T * scale))) (nat (int j mod (T * scale)))))"
    if i: "i < ?h" and j: "j < ?w" for k i j
  proof -
    let ?r = "T * (int i div (T * scale))" and ?c = "T * (int j div (T * scale))"
    have sfp: "0 < scale" using sf i by (rule buffer_position(1))
    have d: "0 < T * scale" using T0 sfp by simp
    have ru: "filter (\<lambda>origin. in_region ?Z T scale origin i j) ?ts = [(?r, ?c)]"
      using T0 dv sfp i j by (rule region_unique) (simp_all add: zeros_def)
    have "(?r, ?c) \<in> set (filter (\<lambda>origin. in_region ?Z T scale origin i j) ?ts)"
      unfolding ru by simp
    then have mem: "(?r, ?c) \<in> set ?ts" by (simp only: set_filter) blast
    then have rm: "?r \<in> set ?hs" and cm: "?c \<in> set ?wl" by simp_all
    have br: "0 \<le> ?r \<and> ?r + T \<le> int (d1 img)"
      using idx_list_bounds [OF T0 n(1) rm] .
    have bc: "0 \<le> ?c \<and> ?c + T \<le> int (d2 img)"
      using idx_list_bounds [OF T0 n(2) cm] .
    from run_tiles_Inr_model [OF run mem]
    obtain P where P: "model (in_patch img T ?r ?c) = Inr P" by auto
    have s1: "norm_index ?h (?r * scale) = nat (?r * scale)"
      using br sf T0 by (intro span_start [where tile = T]) simp_all
    have s2: "norm_index ?w (?c * scale) = nat (?c * scale)"
      using bc sf T0 by (intro span_start [where tile = T]) simp_all
    have x1: "norm_index ?h ((?r + T) * scale) - nat (?r * scale) = nat (T * scale)"
      using span_extent [of scale ?r T "d1 img"] br sf T0 by (simp add: s1)
    have x2: "norm_index ?w ((?c + T) * scale) - nat (?c * scale) = nat (T * scale)"
      using span_extent [of scale ?c T "d2 img"] bc sf T0 by (simp add: s2)
    have W1: "el W k i j = Fin 1"
      using a(6) [of k i j] by (simp add: ru)
    have "el E k i j = tile_sample img model T scale ?Z (?r, ?c) k i j"
      using a(5) [of k i j] by (simp add: ru)
    also have "\<dots> = el (expand (d0 img) (nat (T * scale)) (nat (T * scale)) P) k
                     (i - nat (?r * scale)) (j - nat (?c * scale))"
      using br bc sf T0 P
      by (simp add: tile_sample_def Let_def zeros_def s1 s2 x1 x2)
    also have "\<dots> = el (expand (d0 img) (nat (T * scale)) (nat (T * scale)) P) k
                     (nat (int i mod (T * scale))) (nat (int j mod (T * scale)))"
      by (simp only: tile_offset [OF T0 sfp])
    finally have E: "el E k i j = el (expand (d0 img) (nat (T * scale)) (nat (T * scale)) P) k
                     (nat (int i mod (T * scale))) (nat (int j mod (T * scale)))" .
    have O: "el ?out k i j = el E k i j"
      by (simp add: div_inplace_def W1)
    have mi: "nat (int i mod (T * scale)) < nat (T * scale)"
      and mj: "nat (int j mod (T * scale)) < nat (T * scale)"
      using d by simp_all
    have X: "el ?out k i j = el P k (nat (int i mod (T * scale))) (nat (int j mod (T * scale)))"
      if "k < d0 img" "d0 P = d0 img" "d1 P = nat (T * scale)" "d2 P = nat (T * scale)"
      unfolding O E using that mi mj by (intro expand_exact) simp_all
    show ?thesis
      using W1 P O E X by (intro conjI exI [of _ P]) simp_all
  qed
  have 4: "\<forall>k i j. i < d1 W \<and> j < d2 W \<longrightarrow> el W k i j = Fin 1"
    using pos by (simp add: dW)
  have 5: "inference img model tile 0 window_size scale = (tr, Inr ?out)"
    using acc by (rule inference_Inr)
  have 6: "\<forall>k i j. i < d1 ?out \<and> j < d2 ?out \<longrightarrow>
           (\<exists>P. model (in_patch img T (T * (int i div (T * scale)))
                                      (T * (int j div (T * scale)))) = Inr P
              \<and> el ?out k i j =
                  el (expand (d0 img) (nat (T * scale)) (nat (T * scale)) P) k
                     (nat (int i mod (T * scale))) (nat (int j mod (T * scale)))
              \<and> (k < d0 img \<and> d0 P = d0 img
                   \<and> d1 P = nat (T * scale) \<and> d2 P = nat (T * scale) \<longrightarrow>
                  el ?out k i j =
                    el P k (nat (int i mod (T * scale))) (nat (int j mod (T * scale)))))"
    unfolding dO using pos by blast
  show ?thesis
    using 1 2 3 4 5 6 dO dW
    by (intro exI [of _ ?hs] exI [of _ ?wl] conjI) (simp_all only:, blast+)
qed

text \<open>
  An instance: a padded image of 16 by 16 with 3 channels, tile size 8, window size
  8, scale 4 and the model that repeats samples. The origins are 0 and 8 on both
  axes; the output sample at row 40, column 5 comes from the tile at origin (8, 0)
  alone and is the sample of the image at row 10, column 1.
\<close>

theorem non_overlap_identity_witness:
  "idx_list 16 8 8 = Inr [0, 8]
   \<and> (\<exists>tr E W. accumulate (ramp 3 16 16) (nearest 4) 8 0 8 4 = (tr, Inr (E, W))
         \<and> el W 0 0 0 = Fin 1 \<and> el W 2 63 32 = Fin 1
         \<and> inference (ramp 3 16 16) (nearest 4) 8 0 8 4 = (tr, Inr (div_inplace E W))
         \<and> el (div_inplace E W) 1 40 5 = Fin 161)"
proof -
  let ?img = "ramp 3 16 16"
  have d: "d0 ?img = 3" "d1 ?img = 16" "d2 ?img = 16" by (simp_all add: ramp_def)
  have T: "(8 :: int) = min 8 (min (int (d1 ?img)) (int (d2 ?img)))" by (simp add: d)
  have dv: "(8 :: int) dvd int (d1 ?img)" "(8 :: int) dvd int (d2 ?img)" by (simp_all add: d)
  have l: "idx_list 16 8 8 = Inr [0, 8]"
    by (simp add: idx_list_def py_range_def upt_conv_Cons)
  have m: "well_shaped (nearest 4) 4"
    using well_shaped_nearest [of 4] by simp
  from accumulate_succeeds [OF T, of 0 8 4 "nearest 4"] m
  obtain tr E W where acc: "accumulate ?img (nearest 4) 8 0 8 4 = (tr, Inr (E, W))"
    by auto
  have n0: "(0 :: int) < 8" and w8: "(8 :: int) dvd 8" by simp_all
  note n = non_overlap_identity [OF T n0 dv w8 acc, unfolded d]
  have W: "el W k i j = Fin 1" if "i < 64" "j < 64" for k i j
    using n that by auto
  have inf: "inference ?img (nearest 4) 8 0 8 4 = (tr, Inr (div_inplace E W))"
    using n by auto
  have dO1: "d1 (div_inplace E W) = 64"
    using n [simplified] by (elim exE conjE) assumption
  have dO2: "d2 (div_inplace E W) = 64"
    using n [simplified] by (elim exE conjE) assumption
  note dO = dO1 dO2
  have O: "\<forall>k i j. i < d1 (div_inplace E W) \<and> j < d2 (div_inplace E W) \<longrightarrow>
      (\<exists>P. nearest 4 (in_patch (ramp 3 16 16) 8 (8 * (int i div 32)) (8 * (int j div 32))) = Inr P
         \<and> el (div_inplace E W) k i j =
             el (expand 3 32 32 P) k (nat (int i mod 32)) (nat (int j mod 32))
         \<and> (k < 3 \<and> d0 P = 3 \<and> d1 P = 32 \<and> d2 P = 32 \<longrightarrow>
              el (div_inplace E W) k i j = el P k (nat (int i mod 32)) (nat (int j mod 32))))"
    using n [simplified] by (elim exE conjE) assumption
  have out: "el (div_inplace E W) 1 40 5 = Fin 161"
    using O [rule_format, of 40 5 1]
    by (auto simp: dO nearest_def expand_def in_patch_def slice1_def slice2_def norm_index_def
        ramp_def Let_def)
  show ?thesis
    using l acc W [of 0 0 0] W [of 63 32 2] inf out by auto
qed

end
